theory Spec2Isabelle
  imports Main
begin

section \<open>Toast provider (context/ToastContext.tsx)\<close>

text \<open>
  The provider keeps three pieces of state: \<open>currentToast\<close> (React state), \<open>nextIdRef\<close> and
  \<open>timeoutRef\<close> (refs). Its two operations, \<open>showToast\<close> and \<open>hideToast\<close>, also talk to the
  host's timer service through \<open>setTimeout\<close> and \<open>clearTimeout\<close>. The timer service is made
  part of the state: \<open>pending\<close> lists the timers that were scheduled and have neither fired nor
  been cleared (handle and delay; the callback is always \<open>hideToast\<close>), and \<open>timer_seq\<close> is the
  last handle the service issued. Handles are positive integers, as the host issues them, so
  the source's truthiness test \<open>if (timeoutRef.current)\<close> is the test \<open>h \<noteq> 0\<close>.
  \<open>setCurrentToast\<close> is an update of the state, and toast ids are natural numbers (the
  counter of the source stays exact up to \<open>2^53\<close>).
\<close>

text \<open>
  The \<open>duration\<close> parameter has type \<open>number | "infinite"\<close>. Finite numbers are modelled by
  \<open>Number\<close> (the code only tests the value for truthiness and hands it to the timer), \<open>NaN\<close>
  is the one number besides zero that is falsy.
\<close>

datatype duration = Number int | NaN | Infinite

record 'p ToastItem =
  id_toast :: nat
  props_toast :: 'p

record 'p ShowToastParams =
  duration :: "duration option"
  props :: 'p

record 'p ToastProvider =
  currentToast :: "'p ToastItem option"
  nextIdRef :: nat
  timeoutRef :: "nat option"
  pending :: "(nat \<times> int) list"
  timer_seq :: nat

definition initialProvider :: "'p ToastProvider" where
  "initialProvider =
     \<lparr>currentToast = None, nextIdRef = 0, timeoutRef = None, pending = [], timer_seq = 0\<rparr>"

definition clearTimeout :: "nat \<Rightarrow> 'p ToastProvider \<Rightarrow> 'p ToastProvider" where
  "clearTimeout h s = s\<lparr>pending := filter (\<lambda>t. fst t \<noteq> h) (pending s)\<rparr>"

definition setTimeout :: "int \<Rightarrow> 'p ToastProvider \<Rightarrow> nat \<times> 'p ToastProvider" where
  "setTimeout delay s =
     (let h = Suc (timer_seq s)
      in (h, s\<lparr>pending := pending s @ [(h, delay)], timer_seq := h\<rparr>))"

text \<open>Truthiness of a duration that is not the string \<open>"infinite"\<close>.\<close>

fun truthy :: "duration \<Rightarrow> bool" where
  "truthy (Number n) = (n \<noteq> 0)"
| "truthy NaN = False"
| "truthy Infinite = True"

text \<open>
  The block both operations start with:
  \<^verbatim>\<open>if (timeoutRef.current) { clearTimeout(timeoutRef.current); timeoutRef.current = null; }\<close>
\<close>

definition clearPending :: "'p ToastProvider \<Rightarrow> 'p ToastProvider" where
  "clearPending s =
     (case timeoutRef s of
        None \<Rightarrow> s
      | Some h \<Rightarrow> if h \<noteq> 0 then (clearTimeout h s)\<lparr>timeoutRef := None\<rparr> else s)"

definition hideToast :: "'p ToastProvider \<Rightarrow> 'p ToastProvider" where
  "hideToast s = (clearPending s)\<lparr>currentToast := None\<rparr>"

definition showToast :: "'p ShowToastParams \<Rightarrow> 'p ToastProvider \<Rightarrow> 'p ToastProvider" where
  "showToast params s =
     (let d = (case duration params of None \<Rightarrow> Number 3000 | Some d \<Rightarrow> d);
          s1 = clearPending s;
          i = nextIdRef s1;
          s2 = s1\<lparr>nextIdRef := i + 1,
                  currentToast := Some \<lparr>id_toast = i, props_toast = props params\<rparr>\<rparr>
      in case d of
           Number n \<Rightarrow>
             if truthy d
             then (let (h, s3) = setTimeout n s2 in s3\<lparr>timeoutRef := Some h\<rparr>)
             else s2
         | NaN \<Rightarrow> s2
         | Infinite \<Rightarrow> s2)"

text \<open>
  A pending timer fires: the timer service drops it and runs its callback, \<open>hideToast\<close>.
  A handle that is not pending cannot fire.
\<close>

definition timerFires :: "nat \<Rightarrow> 'p ToastProvider \<Rightarrow> 'p ToastProvider" where
  "timerFires h s =
     (if h \<in> fst ` set (pending s)
      then hideToast (s\<lparr>pending := filter (\<lambda>t. fst t \<noteq> h) (pending s)\<rparr>)
      else s)"

text \<open>The states the provider can be in: any interleaving of calls and timer expiries.\<close>

inductive reachable :: "'p ToastProvider \<Rightarrow> bool" where
  r_init: "reachable initialProvider"
| r_show: "reachable s \<Longrightarrow> reachable (showToast params s)"
| r_hide: "reachable s \<Longrightarrow> reachable (hideToast s)"
| r_fire: "reachable s \<Longrightarrow> h \<in> fst ` set (pending s) \<Longrightarrow> reachable (timerFires h s)"

text \<open>
  The invariant behind the single-timer discipline: whatever is pending is the one timer
  that \<open>timeoutRef\<close> holds, and that handle is truthy.
\<close>

definition timer_inv :: "'p ToastProvider \<Rightarrow> bool" where
  "timer_inv s =
     (case pending s of
        [] \<Rightarrow> True
      | [t] \<Rightarrow> timeoutRef s = Some (fst t) \<and> fst t \<noteq> 0
      | _ \<Rightarrow> False)"

text \<open>
  The full invariant of the reachable states adds that pending handles were issued by the
  timer service and that \<open>timeoutRef\<close> never holds the falsy handle 0.
\<close>

definition provider_inv :: "'p ToastProvider \<Rightarrow> bool" where
  "provider_inv s =
     (timer_inv s \<and> list_all (\<lambda>t. fst t \<le> timer_seq s) (pending s) \<and> timeoutRef s \<noteq> Some 0)"

section \<open>Theme provider (context/ThemeContext.tsx)\<close>

datatype ThemeMode = Light | Dark | System

text \<open>What \<open>useColorScheme\<close> reports; \<open>None\<close> stands for \<open>null\<close> and \<open>undefined\<close>.\<close>

datatype ColorScheme = SchemeLight | SchemeDark

fun mode_string :: "ThemeMode \<Rightarrow> string" where
  "mode_string Light = ''light''"
| "mode_string Dark = ''dark''"
| "mode_string System = ''system''"

definition THEME_MODE_KEY :: string where
  "THEME_MODE_KEY = ''themeMode''"

text \<open>
  The key-value store behind \<open>AsyncStorage\<close>. Its operations return promises that may
  reject; the two flags say whether reads and writes of this store reject.
\<close>

record AsyncStorage =
  items :: "string \<rightharpoonup> string"
  get_fails :: bool
  set_fails :: bool

datatype storage_error = StorageError

definition getItem :: "AsyncStorage \<Rightarrow> string \<Rightarrow> storage_error + string option" where
  "getItem st k = (if get_fails st then Inl StorageError else Inr (items st k))"

definition setItem :: "AsyncStorage \<Rightarrow> string \<Rightarrow> string \<Rightarrow> storage_error + AsyncStorage" where
  "setItem st k v = (if set_fails st then Inl StorageError else Inr (st\<lparr>items := (items st)(k \<mapsto> v)\<rparr>))"

datatype theme_log = FailedToLoad | FailedToSave

record ThemeProvider =
  themeMode :: ThemeMode
  storage :: AsyncStorage
  console :: "theme_log list"

text \<open>The second effect, run after every render in which \<open>themeMode\<close> has changed.\<close>

definition saveEffect :: "ThemeProvider \<Rightarrow> ThemeProvider" where
  "saveEffect a =
     (case setItem (storage a) THEME_MODE_KEY (mode_string (themeMode a)) of
        Inl e \<Rightarrow> a\<lparr>console := console a @ [FailedToSave]\<rparr>
      | Inr st \<Rightarrow> a\<lparr>storage := st\<rparr>)"

text \<open>
  The state setter. Setting the value the state already has does not render again, so the
  effect that depends on \<open>themeMode\<close> does not run.
\<close>

definition setThemeMode :: "ThemeMode \<Rightarrow> ThemeProvider \<Rightarrow> ThemeProvider" where
  "setThemeMode m a = (if m = themeMode a then a else saveEffect (a\<lparr>themeMode := m\<rparr>))"

text \<open>The continuation of the first effect, given what \<open>getItem\<close> settled with.\<close>

definition loadEffect :: "storage_error + string option \<Rightarrow> ThemeProvider \<Rightarrow> ThemeProvider" where
  "loadEffect r a =
     (case r of
        Inl e \<Rightarrow> a\<lparr>console := console a @ [FailedToLoad]\<rparr>
      | Inr stored \<Rightarrow>
          if stored = Some ''light'' then setThemeMode Light a
          else if stored = Some ''dark'' then setThemeMode Dark a
          else if stored = Some ''system'' then setThemeMode System a
          else a)"

text \<open>
  Mounting runs both effects in the order they are declared: the read is issued, then the
  write of the initial mode \<open>"system"\<close>. The store serves requests in the order they were
  issued, so the read settles first, with the value stored before the mount. A read that
  rejects is logged then, before the write settles; a read that resolves has its
  continuation set the mode, and the write that this causes is issued after the write of
  the initial mode.
\<close>

definition mount :: "AsyncStorage \<Rightarrow> ThemeProvider" where
  "mount st =
     (let r = getItem st THEME_MODE_KEY;
          a = \<lparr>themeMode = System, storage = st, console = []\<rparr>
      in case r of
           Inl e \<Rightarrow> saveEffect (loadEffect r a)
         | Inr stored \<Rightarrow> loadEffect r (saveEffect a))"

definition isDark :: "ThemeMode \<Rightarrow> ColorScheme option \<Rightarrow> bool" where
  "isDark mode systemColorScheme =
     (if mode = System then systemColorScheme = Some SchemeDark else mode = Dark)"

text \<open>
  The palettes \<open>blueLight\<close> and \<open>blueDark\<close> come from \<open>themes/blueTheme\<close>, which is not among
  the sources at hand; they are parameters.
\<close>

definition theme :: "'t \<Rightarrow> 't \<Rightarrow> ThemeMode \<Rightarrow> ColorScheme option \<Rightarrow> 't" where
  "theme blueLight blueDark mode systemColorScheme =
     (if isDark mode systemColorScheme then blueDark else blueLight)"

text \<open>
  The provider and a store whose operations succeed are in step when the store holds the
  current mode under the key.
\<close>

definition synced :: "ThemeProvider \<Rightarrow> bool" where
  "synced a =
     (\<not> get_fails (storage a) \<and> \<not> set_fails (storage a)
      \<and> items (storage a) THEME_MODE_KEY = Some (mode_string (themeMode a)))"

section \<open>Command-line tool (cli.js)\<close>

text \<open>
  A path is the list of its segments below the root. The file system is a tree: a node is a
  file with its content or a directory with its entries by name, and the root is a node. A
  path exists when walking down from the root finds a node, so whatever exists lies in
  directories that exist. \<open>dirname\<close> (the package's own directory) and \<open>cwd\<close> (the working
  directory of the process, the consuming project) are parameters of every operation.
\<close>

type_synonym path = "string list"

datatype node = File string | Dir "(string \<times> node) list"

type_synonym fs = node

datatype fs_error = ENOENT | ENOTDIR | EISDIR | EEXIST

fun lookup :: "node \<Rightarrow> path \<Rightarrow> node option" where
  "lookup t [] = Some t"
| "lookup (File c) (x # p) = None"
| "lookup (Dir es) (x # p) = (case map_of es x of None \<Rightarrow> None | Some t \<Rightarrow> lookup t p)"

text \<open>What a path holds, without the entries below a directory.\<close>

datatype kind = IsFile string | IsDir

fun kind_of :: "node \<Rightarrow> kind" where
  "kind_of (File c) = IsFile c"
| "kind_of (Dir es) = IsDir"

definition view :: "fs \<Rightarrow> path \<rightharpoonup> kind" where
  "view f p = map_option kind_of (lookup f p)"

definition pathExists :: "fs \<Rightarrow> path \<Rightarrow> bool" where
  "pathExists f p = (lookup f p \<noteq> None)"

text \<open>
  \<open>process.cwd()\<close> raises when the working directory no longer exists; it is the one call
  of the tool outside \<open>copyFile\<close> that can raise.
\<close>

definition process_cwd :: "path \<Rightarrow> fs \<Rightarrow> fs_error + path" where
  "process_cwd cwd f =
     (case lookup f cwd of
        Some (Dir es) \<Rightarrow> Inr cwd
      | _ \<Rightarrow> Inl ENOENT)"

text \<open>Set the entry \<open>x\<close> of a directory's entries, in place or as a new last entry.\<close>

fun put_entry :: "string \<Rightarrow> node \<Rightarrow> (string \<times> node) list \<Rightarrow> (string \<times> node) list" where
  "put_entry x t [] = [(x, t)]"
| "put_entry x t ((y, u) # es) = (if x = y then (x, t) # es else (y, u) # put_entry x t es)"

text \<open>
  \<open>mkdir -p\<close>: walk down from the root, creating the directories that are missing. A file
  where the directory itself should be fails with \<open>EEXIST\<close>, a file on the way with
  \<open>ENOTDIR\<close>.
\<close>

fun ensureDir :: "fs \<Rightarrow> path \<Rightarrow> fs_error + fs" where
  "ensureDir (File c) [] = Inl EEXIST"
| "ensureDir (File c) (x # p) = Inl ENOTDIR"
| "ensureDir (Dir es) [] = Inr (Dir es)"
| "ensureDir (Dir es) (x # p) =
     (case ensureDir (case map_of es x of None \<Rightarrow> Dir [] | Some t \<Rightarrow> t) p of
        Inl e \<Rightarrow> Inl e
      | Inr t' \<Rightarrow> Inr (Dir (put_entry x t' es)))"

fun readFile :: "fs \<Rightarrow> path \<Rightarrow> fs_error + string" where
  "readFile (File c) [] = Inr c"
| "readFile (Dir es) [] = Inl EISDIR"
| "readFile (File c) (x # p) = Inl ENOTDIR"
| "readFile (Dir es) (x # p) =
     (case map_of es x of None \<Rightarrow> Inl ENOENT | Some t \<Rightarrow> readFile t p)"

text \<open>
  \<open>writeFile\<close> creates the file or replaces its content; the directory it lies in must
  exist.
\<close>

fun writeFile :: "fs \<Rightarrow> path \<Rightarrow> string \<Rightarrow> fs_error + fs" where
  "writeFile (File c') [] c = Inr (File c)"
| "writeFile (Dir es) [] c = Inl EISDIR"
| "writeFile (File c') (x # p) c = Inl ENOTDIR"
| "writeFile (Dir es) (x # p) c =
     (case map_of es x of
        None \<Rightarrow> if p = [] then Inr (Dir (put_entry x (File c) es)) else Inl ENOENT
      | Some t \<Rightarrow>
          (case writeFile t p c of
             Inl e \<Rightarrow> Inl e
           | Inr t' \<Rightarrow> Inr (Dir (put_entry x t' es))))"

text \<open>
  What the tool prints. Each constructor stands for one message template of the source with
  its interpolated values; \<open>Log\<close> is \<open>console.log\<close>, \<open>Err\<close> is \<open>console.error\<close>.
\<close>

datatype msg =
    Created path
  | FailedToCopy path fs_error
  | ContextNotAvailable string
  | AlreadyExists string
  | AutomaticallyAdded string
  | PleaseSpecify
  | AddedAll
  | NotAvailable string
  | AvailableComponents
  | AvailableThemes
  | NlAvailableThemes
  | Item string
  | SuccessfullyAdded string
  | RequiredDependencies string "string list"
  | HelpText
  | UnknownCommand "string option"
  | AnErrorOccurred fs_error

datatype line = Log msg | Err msg

record cli =
  files :: fs
  out :: "line list"
  written :: "path list"
  exit_code :: nat

definition say :: "line \<Rightarrow> cli \<Rightarrow> cli" where
  "say l s = s\<lparr>out := out s @ [l]\<rparr>"

definition availableComponents :: "string list" where
  "availableComponents =
     [''Alert'', ''Button'', ''RadioButton'', ''SafeAreaView'', ''SegmentedControl'',
      ''Switch'', ''Text'', ''TextInput'', ''Toast'', ''View'']"

definition availableContexts :: "string list" where
  "availableContexts = [''AlertContext'', ''ThemeContext'', ''ToastContext'']"

definition availableThemes :: "string list" where
  "availableThemes = [''blueTheme'']"

definition isValidComponent :: "string \<Rightarrow> bool" where
  "isValidComponent name =
     (name \<in> set availableComponents \<or> name \<in> set availableContexts
      \<or> name \<in> set availableThemes)"

text \<open>
  \<open>copyFile\<close> catches whatever its three file-system calls raise. \<open>written\<close> records the
  paths \<open>writeFile\<close> has written.
\<close>

definition copyFile :: "path \<Rightarrow> path \<Rightarrow> cli \<Rightarrow> bool \<times> cli" where
  "copyFile sourcePath targetPath s =
     (case ensureDir (files s) (butlast targetPath) of
        Inl e \<Rightarrow> (False, say (Err (FailedToCopy sourcePath e)) s)
      | Inr f1 \<Rightarrow>
          (case readFile f1 sourcePath of
             Inl e \<Rightarrow> (False, say (Err (FailedToCopy sourcePath e)) (s\<lparr>files := f1\<rparr>))
           | Inr content \<Rightarrow>
               (case writeFile f1 targetPath content of
                  Inl e \<Rightarrow> (False, say (Err (FailedToCopy sourcePath e)) (s\<lparr>files := f1\<rparr>))
                | Inr f2 \<Rightarrow>
                    (True, say (Log (Created targetPath))
                             (s\<lparr>files := f2, written := written s @ [targetPath]\<rparr>)))))"

text \<open>
  The functions below return what they leave behind together with either their result
  (\<open>Inr\<close>) or the error they raise (\<open>Inl\<close>); an error raised by a callee is raised again
  by the caller, up to the \<open>catch\<close> of \<open>main\<close>.
\<close>

definition addRelatedContext ::
    "path \<Rightarrow> path \<Rightarrow> string \<Rightarrow> cli \<Rightarrow> (fs_error + bool) \<times> cli" where
  "addRelatedContext dirname cwd contextName s =
     (if contextName \<notin> set availableContexts
      then (Inr False, say (Err (ContextNotAvailable contextName)) s)
      else
        (let sourcePath = dirname @ [''context'', contextName @ ''.tsx'']
         in case process_cwd cwd (files s) of
              Inl e \<Rightarrow> (Inl e, s)
            | Inr wd \<Rightarrow>
                (let targetDir = wd @ [''context''];
                     targetPath = targetDir @ [contextName @ ''.tsx'']
                 in if pathExists (files s) targetPath
                    then (Inr True, say (Log (AlreadyExists contextName)) s)
                    else (let (success, s1) = copyFile sourcePath targetPath s
                          in (Inr success,
                              if success then say (Log (AutomaticallyAdded contextName)) s1
                              else s1)))))"

definition showHelp :: "cli \<Rightarrow> cli" where
  "showHelp s = say (Log HelpText) s"

definition listComponents :: "cli \<Rightarrow> cli" where
  "listComponents s =
     s\<lparr>out := out s @ [Log AvailableComponents] @ map (\<lambda>comp. Log (Item comp)) availableComponents
                 @ [Log NlAvailableThemes] @ map (\<lambda>t. Log (Item t)) availableThemes\<rparr>"

text \<open>
  The block of \<open>addComponent\<close> under \<open>if (added)\<close>: the success message and the
  dependencies the component needs.
\<close>

definition reportAdded :: "string \<Rightarrow> cli \<Rightarrow> cli" where
  "reportAdded name s1 =
     (let s4 = say (Log (SuccessfullyAdded name)) s1;
          requiredDeps =
            (if name = ''Toast''
             then [''react-native-gesture-handler'',
                   ''react-native-safe-area-context'',
                   ''react-native-reanimated'']
             else if name = ''SafeAreaView''
             then [''react-native-safe-area-context'']
             else [])
      in if length requiredDeps > 0
         then say (Log (RequiredDependencies name requiredDeps)) s4
         else s4)"

text \<open>
  \<open>addComponent\<close> calls itself for every item when the name is \<open>"all"\<close>; no item is
  \<open>"all"\<close>, which bounds the recursion, and an error raised for one item ends the loop.
  \<open>componentName\<close> is \<open>None\<close> when the argument is missing from the command line. In each
  of the three branches \<open>process.cwd()\<close> is called before the target is looked at.
\<close>

function addComponent ::
    "path \<Rightarrow> path \<Rightarrow> string option \<Rightarrow> cli \<Rightarrow> (fs_error + unit) \<times> cli" where
  "addComponent dirname cwd componentName s =
     (case componentName of
        None \<Rightarrow> (Inr (), showHelp (say (Err PleaseSpecify) s))
      | Some name \<Rightarrow>
          if name = [] then (Inr (), showHelp (say (Err PleaseSpecify) s))
          else if name = ''all'' then
            (let allItems = availableComponents @ availableThemes
             in case fold (\<lambda>item (r, t).
                            case r of
                              Inl e \<Rightarrow> (Inl e, t)
                            | Inr u \<Rightarrow> addComponent dirname cwd (Some item) t)
                       allItems (Inr (), s) of
                  (Inl e, s1) \<Rightarrow> (Inl e, s1)
                | (Inr u, s1) \<Rightarrow> (Inr (), say (Log AddedAll) s1))
          else if \<not> isValidComponent name then
            (Inr (),
             s\<lparr>out := out s @ [Err (NotAvailable name), Log AvailableComponents]
                @ map (\<lambda>comp. Log (Item comp)) availableComponents
                @ [Log AvailableThemes] @ map (\<lambda>t. Log (Item t)) availableThemes\<rparr>)
          else
            (case
               (if name \<in> set availableComponents then
                  (let sourcePath = dirname @ [''components'', ''ui'', name @ ''.tsx'']
                   in case process_cwd cwd (files s) of
                        Inl e \<Rightarrow> (Inl e, s)
                      | Inr wd \<Rightarrow>
                          (let targetDir = wd @ [''components'', ''ui''];
                               targetPath = targetDir @ [name @ ''.tsx'']
                           in if pathExists (files s) targetPath
                              then (Inr False, say (Log (AlreadyExists name)) s)
                              else
                                (let s2 = snd (copyFile sourcePath targetPath s)
                                 in if name = ''Toast'' then
                                      (case addRelatedContext dirname cwd ''ToastContext'' s2 of
                                         (Inl e, s3) \<Rightarrow> (Inl e, s3)
                                       | (Inr b, s3) \<Rightarrow> (Inr True, s3))
                                    else if name = ''Alert'' then
                                      (case addRelatedContext dirname cwd ''AlertContext'' s2 of
                                         (Inl e, s3) \<Rightarrow> (Inl e, s3)
                                       | (Inr b, s3) \<Rightarrow> (Inr True, s3))
                                    else (Inr True, s2))))
                else if name \<in> set availableContexts then
                  (let sourcePath = dirname @ [''context'', name @ ''.tsx'']
                   in case process_cwd cwd (files s) of
                        Inl e \<Rightarrow> (Inl e, s)
                      | Inr wd \<Rightarrow>
                          (let targetDir = wd @ [''context''];
                               targetPath = targetDir @ [name @ ''.tsx'']
                           in if pathExists (files s) targetPath
                              then (Inr False, say (Log (AlreadyExists name)) s)
                              else (Inr True, snd (copyFile sourcePath targetPath s))))
                else if name \<in> set availableThemes then
                  (let sourcePath = dirname @ [''themes'', name @ ''.ts'']
                   in case process_cwd cwd (files s) of
                        Inl e \<Rightarrow> (Inl e, s)
                      | Inr wd \<Rightarrow>
                          (let targetDir = wd @ [''themes''];
                               targetPath = targetDir @ [name @ ''.ts'']
                           in if pathExists (files s) targetPath
                              then (Inr False, say (Log (AlreadyExists name)) s)
                              else
                                (let s2 = snd (copyFile sourcePath targetPath s)
                                 in case addRelatedContext dirname cwd ''ThemeContext'' s2 of
                                      (Inl e, s3) \<Rightarrow> (Inl e, s3)
                                    | (Inr b, s3) \<Rightarrow> (Inr True, s3))))
                else (Inr False, s))
             of
               (Inl e, s1) \<Rightarrow> (Inl e, s1)
             | (Inr added, s1) \<Rightarrow> (Inr (), if added then reportAdded name s1 else s1)))"
  by pat_completeness auto
termination
  by (relation "measure (\<lambda>(d, c, n, s). if n = Some ''all'' then 1 else 0)")
     (auto simp: availableComponents_def availableThemes_def)

declare addComponent.simps [simp del]

text \<open>
  \<open>main\<close> reads the command and the component name from the command line (either may be
  missing) and starts from the file system it finds. Its \<open>catch\<close> prints the error that
  \<open>addComponent\<close> raised and ends the process with exit code 1; \<open>listComponents\<close> and
  \<open>showHelp\<close> raise nothing.
\<close>

definition main :: "path \<Rightarrow> path \<Rightarrow> string option \<Rightarrow> string option \<Rightarrow> fs \<Rightarrow> cli" where
  "main dirname cwd command componentName f =
     (let s = \<lparr>files = f, out = [], written = [], exit_code = 0\<rparr>
      in if command = Some ''add'' then
           (case addComponent dirname cwd componentName s of
              (Inr u, s1) \<Rightarrow> s1
            | (Inl error, s1) \<Rightarrow> (say (Err (AnErrorOccurred error)) s1)\<lparr>exit_code := 1\<rparr>)
         else if command = Some ''list'' then listComponents s
         else if command = Some ''help'' then showHelp s
         else showHelp (say (Err (UnknownCommand command)) s))"

text \<open>
  The source and the target path \<open>addComponent\<close> computes for a valid name, in the order of
  its three branches.
\<close>

definition sourceOf :: "path \<Rightarrow> string \<Rightarrow> path" where
  "sourceOf dirname name =
     (if name \<in> set availableComponents then dirname @ [''components'', ''ui'', name @ ''.tsx'']
      else if name \<in> set availableContexts then dirname @ [''context'', name @ ''.tsx'']
      else dirname @ [''themes'', name @ ''.ts''])"

definition targetOf :: "path \<Rightarrow> string \<Rightarrow> path" where
  "targetOf cwd name =
     (if name \<in> set availableComponents then cwd @ [''components'', ''ui'', name @ ''.tsx'']
      else if name \<in> set availableContexts then cwd @ [''context'', name @ ''.tsx'']
      else cwd @ [''themes'', name @ ''.ts''])"

text \<open>
  What a run leaves of the file system \<open>f0\<close> it started from: every path that existed still
  holds what it held, and no path that existed was written.
\<close>

definition frame :: "fs \<Rightarrow> cli \<Rightarrow> bool" where
  "frame f0 s = (view f0 \<subseteq>\<^sub>m view (files s) \<and> list_all (\<lambda>p. lookup f0 p = None) (written s))"

text \<open>
  The error lines the tool is meant to print for its failures: no component name, a
  name that is not available, a copy that failed, a command that is not known, an error
  caught by \<open>main\<close>.
\<close>

fun handled :: "line \<Rightarrow> bool" where
  "handled (Log m) = True"
| "handled (Err PleaseSpecify) = True"
| "handled (Err (NotAvailable n)) = True"
| "handled (Err (FailedToCopy p e)) = True"
| "handled (Err (UnknownCommand c)) = True"
| "handled (Err (AnErrorOccurred e)) = True"
| "handled (Err m) = False"

definition cli_inv :: "fs \<Rightarrow> cli \<Rightarrow> bool" where
  "cli_inv f0 s = (frame f0 s \<and> exit_code s = 0 \<and> list_all handled (out s))"

section \<open>Properties of the toast provider\<close>

lemma clearPending_pending: "timer_inv s \<Longrightarrow> pending (clearPending s) = []"
  by (auto simp: timer_inv_def clearPending_def clearTimeout_def split: list.splits option.splits)

lemma clearPending_fields:
  "nextIdRef (clearPending s) = nextIdRef s" "timer_seq (clearPending s) = timer_seq s"
  "currentToast (clearPending s) = currentToast s"
  by (auto simp: clearPending_def clearTimeout_def split: option.splits)

lemma clearPending_ref: "timeoutRef s \<noteq> Some 0 \<Longrightarrow> timeoutRef (clearPending s) = None"
  by (auto simp: clearPending_def split: option.splits)

lemma hideToast_pending: "timer_inv s \<Longrightarrow> pending (hideToast s) = []"
  by (simp add: hideToast_def clearPending_pending)

lemma showToast_pending:
  "timer_inv s \<Longrightarrow>
   pending (showToast params s) =
     (case duration params of
        None \<Rightarrow> [(Suc (timer_seq s), 3000)]
      | Some (Number n) \<Rightarrow> if n = 0 then [] else [(Suc (timer_seq s), n)]
      | Some NaN \<Rightarrow> []
      | Some Infinite \<Rightarrow> [])"
  by (auto simp: showToast_def Let_def setTimeout_def clearPending_pending clearPending_fields
           split: duration.splits option.splits)

lemma showToast_provider_inv: "provider_inv s \<Longrightarrow> provider_inv (showToast params s)"
  by (auto simp: provider_inv_def showToast_def Let_def setTimeout_def timer_inv_def
                 clearPending_pending clearPending_fields clearPending_ref
           split: duration.splits option.splits)

lemma hideToast_provider_inv: "provider_inv s \<Longrightarrow> provider_inv (hideToast s)"
  by (simp add: provider_inv_def hideToast_pending timer_inv_def) (simp add: hideToast_def clearPending_ref)

lemma timerFires_pending: "timer_inv s \<Longrightarrow> h \<in> fst ` set (pending s) \<Longrightarrow> pending (timerFires h s) = []"
  by (auto simp: timerFires_def hideToast_def clearPending_def clearTimeout_def timer_inv_def
           split: list.splits option.splits)

lemma timerFires_provider_inv: "provider_inv s \<Longrightarrow> provider_inv (timerFires h s)"
proof (cases "h \<in> fst ` set (pending s)")
  case True
  show "provider_inv s \<Longrightarrow> provider_inv (timerFires h s)"
  proof -
    assume "provider_inv s"
    then have "timer_inv s" by (simp add: provider_inv_def)
    then have "pending (timerFires h s) = []" using True by (rule timerFires_pending)
    moreover have "timeoutRef (timerFires h s) \<noteq> Some 0"
      using \<open>provider_inv s\<close> by (simp add: timerFires_def hideToast_def clearPending_ref provider_inv_def)
    ultimately show ?thesis by (simp add: provider_inv_def timer_inv_def)
  qed
next
  case False
  then show "provider_inv s \<Longrightarrow> provider_inv (timerFires h s)"
    by (simp add: timerFires_def)
qed

lemma reachable_provider_inv: "reachable s \<Longrightarrow> provider_inv s"
proof (induction rule: reachable.induct)
  case r_init
  show ?case by (simp add: provider_inv_def timer_inv_def initialProvider_def)
next
  case (r_show s params)
  from r_show.IH show ?case by (rule showToast_provider_inv)
next
  case (r_hide s)
  from r_hide.IH show ?case by (rule hideToast_provider_inv)
next
  case (r_fire s h)
  from r_fire.IH show ?case by (rule timerFires_provider_inv)
qed

lemma showToast_current:
  "currentToast (showToast params s) = Some \<lparr>id_toast = nextIdRef s, props_toast = props params\<rparr>"
  by (auto simp: showToast_def Let_def setTimeout_def clearPending_fields split: duration.splits option.splits)

lemma hideToast_current: "currentToast (hideToast s) = None"
  by (simp add: hideToast_def)

lemma timerFires_idle: "pending s = [] \<Longrightarrow> timerFires h s = s"
  by (simp add: timerFires_def)

text \<open>
  Claim C2. In every reachable state at most one auto-dismiss timer is pending. The
  clearing block leaves none pending; \<open>showToast\<close> leaves none of the timers that were
  pending before it and at most one new one; \<open>hideToast\<close> leaves none; a timer expiry
  leaves at most one. So every operation of the provider keeps the bound.
\<close>

theorem single_pending_timer:
  assumes "reachable s"
  shows "length (pending s) \<le> 1
       \<and> pending (clearPending s) = []
       \<and> set (pending (showToast params s)) \<inter> set (pending s) = {}
       \<and> length (pending (showToast params s)) \<le> 1
       \<and> pending (hideToast s) = []
       \<and> length (pending (timerFires h s)) \<le> 1"
proof -
  from assms have f: "provider_inv s" by (rule reachable_provider_inv)
  then have i: "timer_inv s" by (simp add: provider_inv_def)
  have inv_len: "length (pending t) \<le> 1" if "timer_inv t" for t :: "'a ToastProvider"
    using that by (simp add: timer_inv_def split: list.splits)
  have 1: "length (pending s) \<le> 1" using i by (rule inv_len)
  have 2: "pending (clearPending s) = []" using i by (rule clearPending_pending)
  have 3: "set (pending (showToast params s)) \<inter> set (pending s) = {}"
    using f by (auto simp: showToast_pending provider_inv_def list_all_iff split: option.splits duration.splits if_splits)
  have 4: "length (pending (showToast params s)) \<le> 1"
    using showToast_provider_inv[OF f, of params] by (intro inv_len) (simp add: provider_inv_def)
  have 5: "pending (hideToast s) = []" using i by (rule hideToast_pending)
  have 6: "length (pending (timerFires h s)) \<le> 1"
    using timerFires_provider_inv[OF f, of h] by (intro inv_len) (simp add: provider_inv_def)
  from 1 2 3 4 5 6 show ?thesis by simp
qed

theorem single_pending_timer_witness:
  "reachable (showToast \<lparr>duration = None, props = ''saved''\<rparr> initialProvider)
   \<and> pending (showToast \<lparr>duration = None, props = ''saved''\<rparr> initialProvider) = [(1, 3000)]
   \<and> length (pending (showToast \<lparr>duration = Some (Number 500), props = ''again''\<rparr>
        (showToast \<lparr>duration = None, props = ''saved''\<rparr> initialProvider))) \<le> 1
   \<and> pending (hideToast (showToast \<lparr>duration = None, props = ''saved''\<rparr> initialProvider)) = []"
proof -
  have r: "reachable (showToast \<lparr>duration = None, props = ''saved''\<rparr> initialProvider)"
    by (rule r_show) (rule r_init)
  have p: "pending (showToast \<lparr>duration = None, props = ''saved''\<rparr> initialProvider) = [(1, 3000)]"
    by (simp add: showToast_def clearPending_def setTimeout_def initialProvider_def)
  from single_pending_timer[OF r, of "\<lparr>duration = Some (Number 500), props = ''again''\<rparr>" 1] r p
  show ?thesis by simp
qed

text \<open>
  Claim C1, as amended. The provider has no queue. In every state, also when a toast is on
  display, \<open>showToast\<close> makes the new toast the displayed one at once, under the next id,
  and the toast it replaces is kept nowhere: hiding the new toast leaves nothing on display.
\<close>

theorem showToast_replaces_current:
  "currentToast (showToast params s) = Some \<lparr>id_toast = nextIdRef s, props_toast = props params\<rparr>
   \<and> currentToast (hideToast (showToast params s)) = None"
  by (simp add: showToast_current hideToast_current)

text \<open>
  Claim C1 as stated fails: with the toast \<open>first\<close> on display, showing \<open>second\<close> replaces
  it, and after \<open>second\<close> is hidden nothing is displayed, so \<open>first\<close> was not queued.
\<close>

theorem showToast_queue_counterexample:
  "currentToast (showToast \<lparr>duration = None, props = ''first''\<rparr> initialProvider)
     = Some \<lparr>id_toast = 0, props_toast = ''first''\<rparr>
   \<and> currentToast (showToast \<lparr>duration = None, props = ''second''\<rparr>
        (showToast \<lparr>duration = None, props = ''first''\<rparr> initialProvider))
     = Some \<lparr>id_toast = 1, props_toast = ''second''\<rparr>
   \<and> currentToast (hideToast (showToast \<lparr>duration = None, props = ''second''\<rparr>
        (showToast \<lparr>duration = None, props = ''first''\<rparr> initialProvider)))
     = None"
  by (simp add: showToast_def hideToast_def clearPending_def clearTimeout_def setTimeout_def
                initialProvider_def)

lemma timerFires_current:
  "h \<in> fst ` set (pending s) \<Longrightarrow> currentToast (timerFires h s) = None"
  by (simp add: timerFires_def hideToast_def)

text \<open>
  Claim C7. In a reachable state, \<open>showToast\<close> with a finite nonzero duration \<open>d\<close> leaves
  exactly one pending timer, with delay \<open>d\<close> and held by \<open>timeoutRef\<close>, and when it fires the
  current toast becomes \<open>null\<close>; with the duration omitted the same holds with delay 3000.
  With duration \<open>"infinite"\<close> no timer is pending, so no timer event changes the state, the
  toast stays on display, and \<open>hideToast\<close> removes it.
\<close>

theorem timer_based_dismissal:
  assumes "reachable s"
  shows "(d \<noteq> 0 \<longrightarrow>
            pending (showToast \<lparr>duration = Some (Number d), props = p\<rparr> s) = [(Suc (timer_seq s), d)]
          \<and> timeoutRef (showToast \<lparr>duration = Some (Number d), props = p\<rparr> s) = Some (Suc (timer_seq s))
          \<and> currentToast (timerFires (Suc (timer_seq s))
               (showToast \<lparr>duration = Some (Number d), props = p\<rparr> s)) = None)
       \<and> pending (showToast \<lparr>duration = None, props = p\<rparr> s) = [(Suc (timer_seq s), 3000)]
       \<and> currentToast (timerFires (Suc (timer_seq s))
            (showToast \<lparr>duration = None, props = p\<rparr> s)) = None
       \<and> pending (showToast \<lparr>duration = Some Infinite, props = p\<rparr> s) = []
       \<and> timerFires h (showToast \<lparr>duration = Some Infinite, props = p\<rparr> s)
            = showToast \<lparr>duration = Some Infinite, props = p\<rparr> s
       \<and> currentToast (showToast \<lparr>duration = Some Infinite, props = p\<rparr> s)
            = Some \<lparr>id_toast = nextIdRef s, props_toast = p\<rparr>
       \<and> currentToast (hideToast (showToast \<lparr>duration = Some Infinite, props = p\<rparr> s)) = None"
proof -
  from assms have i: "timer_inv s" using reachable_provider_inv by (auto simp: provider_inv_def)
  have a: "pending (showToast \<lparr>duration = Some (Number d), props = p\<rparr> s) = [(Suc (timer_seq s), d)]"
    if "d \<noteq> 0" using that i by (simp add: showToast_pending)
  have a2: "timeoutRef (showToast \<lparr>duration = Some (Number d), props = p\<rparr> s) = Some (Suc (timer_seq s))"
    if "d \<noteq> 0" using that
    by (simp add: showToast_def Let_def setTimeout_def clearPending_fields)
  have a3: "currentToast (timerFires (Suc (timer_seq s))
               (showToast \<lparr>duration = Some (Number d), props = p\<rparr> s)) = None"
    if "d \<noteq> 0" using a[OF that] by (simp add: timerFires_current)
  have b: "pending (showToast \<lparr>duration = None, props = p\<rparr> s) = [(Suc (timer_seq s), 3000)]"
    using i by (simp add: showToast_pending)
  then have b2: "currentToast (timerFires (Suc (timer_seq s))
            (showToast \<lparr>duration = None, props = p\<rparr> s)) = None"
    by (simp add: timerFires_current)
  have c: "pending (showToast \<lparr>duration = Some Infinite, props = p\<rparr> s) = []"
    using i by (simp add: showToast_pending)
  then have c2: "timerFires h (showToast \<lparr>duration = Some Infinite, props = p\<rparr> s)
            = showToast \<lparr>duration = Some Infinite, props = p\<rparr> s"
    by (rule timerFires_idle)
  have c3: "currentToast (showToast \<lparr>duration = Some Infinite, props = p\<rparr> s)
            = Some \<lparr>id_toast = nextIdRef s, props_toast = p\<rparr>"
    by (simp add: showToast_current)
  have c4: "currentToast (hideToast (showToast \<lparr>duration = Some Infinite, props = p\<rparr> s)) = None"
    by (rule hideToast_current)
  from a a2 a3 b b2 c c2 c3 c4 show ?thesis by simp
qed

theorem timer_based_dismissal_witness:
  "reachable (initialProvider :: string ToastProvider)
   \<and> (250::int) \<noteq> 0
   \<and> pending (showToast \<lparr>duration = Some (Number 250), props = ''hello''\<rparr> initialProvider) = [(1, 250)]
   \<and> currentToast (timerFires 1
        (showToast \<lparr>duration = Some (Number 250), props = ''hello''\<rparr> initialProvider)) = None
   \<and> pending (showToast \<lparr>duration = None, props = ''hello''\<rparr> initialProvider) = [(1, 3000)]
   \<and> pending (showToast \<lparr>duration = Some Infinite, props = ''hello''\<rparr> initialProvider) = []
   \<and> currentToast (showToast \<lparr>duration = Some Infinite, props = ''hello''\<rparr> initialProvider)
        = Some \<lparr>id_toast = 0, props_toast = ''hello''\<rparr>"
proof -
  have r: "reachable (initialProvider :: string ToastProvider)" by (rule r_init)
  have z: "timer_seq (initialProvider :: string ToastProvider) = 0"
          "nextIdRef (initialProvider :: string ToastProvider) = 0"
    by (simp_all add: initialProvider_def)
  from timer_based_dismissal[OF r, of 250 "''hello''" 1] r z show ?thesis by simp
qed

text \<open>
  Claim C9. In a reachable state, \<open>showToast\<close> with duration 0 does exactly what it does
  with \<open>"infinite"\<close>: no timer is pending and \<open>timeoutRef\<close> is \<open>null\<close>, so no timer event changes
  the state, the toast stays on display, and \<open>hideToast\<close> removes it.
\<close>

theorem zero_duration_no_timer:
  assumes "reachable s"
  shows "showToast \<lparr>duration = Some (Number 0), props = p\<rparr> s
           = showToast \<lparr>duration = Some Infinite, props = p\<rparr> s
       \<and> pending (showToast \<lparr>duration = Some (Number 0), props = p\<rparr> s) = []
       \<and> timeoutRef (showToast \<lparr>duration = Some (Number 0), props = p\<rparr> s) = None
       \<and> timerFires h (showToast \<lparr>duration = Some (Number 0), props = p\<rparr> s)
            = showToast \<lparr>duration = Some (Number 0), props = p\<rparr> s
       \<and> currentToast (showToast \<lparr>duration = Some (Number 0), props = p\<rparr> s)
            = Some \<lparr>id_toast = nextIdRef s, props_toast = p\<rparr>
       \<and> currentToast (hideToast (showToast \<lparr>duration = Some (Number 0), props = p\<rparr> s)) = None"
proof -
  from assms have i: "timer_inv s" and z: "timeoutRef s \<noteq> Some 0"
    using reachable_provider_inv by (auto simp: provider_inv_def)
  have e: "showToast \<lparr>duration = Some (Number 0), props = p\<rparr> s
           = showToast \<lparr>duration = Some Infinite, props = p\<rparr> s"
    by (simp add: showToast_def)
  have c: "pending (showToast \<lparr>duration = Some (Number 0), props = p\<rparr> s) = []"
    using i by (simp add: showToast_pending)
  have t: "timeoutRef (showToast \<lparr>duration = Some (Number 0), props = p\<rparr> s) = None"
    using z by (simp add: showToast_def Let_def clearPending_ref)
  have f: "timerFires h (showToast \<lparr>duration = Some (Number 0), props = p\<rparr> s)
            = showToast \<lparr>duration = Some (Number 0), props = p\<rparr> s"
    using c by (rule timerFires_idle)
  have c3: "currentToast (showToast \<lparr>duration = Some (Number 0), props = p\<rparr> s)
            = Some \<lparr>id_toast = nextIdRef s, props_toast = p\<rparr>"
    by (simp add: showToast_current)
  have c4: "currentToast (hideToast (showToast \<lparr>duration = Some (Number 0), props = p\<rparr> s)) = None"
    by (rule hideToast_current)
  from e c t f c3 c4 show ?thesis by simp
qed

theorem zero_duration_no_timer_witness:
  "reachable (showToast \<lparr>duration = Some (Number 100), props = ''one''\<rparr> initialProvider)
   \<and> pending (showToast \<lparr>duration = Some (Number 100), props = ''one''\<rparr> initialProvider) = [(1, 100)]
   \<and> pending (showToast \<lparr>duration = Some (Number 0), props = ''two''\<rparr>
        (showToast \<lparr>duration = Some (Number 100), props = ''one''\<rparr> initialProvider)) = []
   \<and> currentToast (showToast \<lparr>duration = Some (Number 0), props = ''two''\<rparr>
        (showToast \<lparr>duration = Some (Number 100), props = ''one''\<rparr> initialProvider))
       = Some \<lparr>id_toast = 1, props_toast = ''two''\<rparr>"
proof -
  have r: "reachable (showToast \<lparr>duration = Some (Number 100), props = ''one''\<rparr> initialProvider)"
    by (rule r_show) (rule r_init)
  have p: "pending (showToast \<lparr>duration = Some (Number 100), props = ''one''\<rparr> initialProvider) = [(1, 100)]"
     and n: "nextIdRef (showToast \<lparr>duration = Some (Number 100), props = ''one''\<rparr> initialProvider) = 1"
    by (simp_all add: showToast_def clearPending_def setTimeout_def initialProvider_def)
  from zero_duration_no_timer[OF r, of "''two''" 1, THEN conjunct2] r p n show ?thesis by simp
qed

section \<open>Properties of the theme provider\<close>

lemma saveEffect_flags:
  "get_fails (storage (saveEffect a)) = get_fails (storage a)"
  "set_fails (storage (saveEffect a)) = set_fails (storage a)"
  "themeMode (saveEffect a) = themeMode a"
  by (simp_all add: saveEffect_def setItem_def)

lemma saveEffect_items:
  "\<not> set_fails (storage a) \<Longrightarrow>
   items (storage (saveEffect a)) THEME_MODE_KEY = Some (mode_string (themeMode a))"
  by (simp add: saveEffect_def setItem_def)

lemma setThemeMode_mode: "themeMode (setThemeMode m a) = m"
  by (simp add: setThemeMode_def saveEffect_flags)

lemma setThemeMode_synced: "synced a \<Longrightarrow> synced (setThemeMode m a)"
  by (simp add: synced_def setThemeMode_def saveEffect_flags saveEffect_items)

lemma loadEffect_synced: "synced a \<Longrightarrow> synced (loadEffect (Inr v) a)"
  by (simp add: loadEffect_def setThemeMode_synced)

lemma mount_synced:
  "\<not> get_fails st \<Longrightarrow> \<not> set_fails st \<Longrightarrow> synced (mount st)"
proof -
  assume g: "\<not> get_fails st" and w: "\<not> set_fails st"
  have "synced (saveEffect \<lparr>themeMode = System, storage = st, console = []\<rparr>)"
    using g w by (simp add: synced_def saveEffect_flags saveEffect_items)
  then have "synced (loadEffect (Inr (items st THEME_MODE_KEY))
                 (saveEffect \<lparr>themeMode = System, storage = st, console = []\<rparr>))"
    by (rule loadEffect_synced)
  then show ?thesis using g by (simp add: mount_def getItem_def)
qed

lemma fold_setThemeMode_synced: "synced a \<Longrightarrow> synced (fold setThemeMode ms a)"
  by (induction ms arbitrary: a) (simp_all add: setThemeMode_synced)

lemma mount_mode:
  "themeMode (mount st) =
     (case getItem st THEME_MODE_KEY of
        Inl e \<Rightarrow> System
      | Inr stored \<Rightarrow>
          if stored = Some ''light'' then Light
          else if stored = Some ''dark'' then Dark
          else System)"
  by (cases "getItem st THEME_MODE_KEY")
     (simp_all add: mount_def Let_def loadEffect_def setThemeMode_mode saveEffect_flags)

lemma mount_restores: "synced a \<Longrightarrow> themeMode (mount (storage a)) = themeMode a"
  by (cases "themeMode a") (simp_all add: mount_mode synced_def getItem_def)

text \<open>
  Claim C4. With a store whose reads and writes succeed, after the provider has mounted and
  after any sequence of earlier calls, \<open>setThemeMode m\<close> leaves \<open>m\<close> (as its string) stored
  under the key \<open>"themeMode"\<close>, and a provider mounted on that store afterwards has
  \<open>themeMode = m\<close>.
\<close>

theorem themeMode_roundtrip:
  assumes "\<not> get_fails st" and "\<not> set_fails st"
  shows "items (storage (setThemeMode m (fold setThemeMode ms (mount st)))) THEME_MODE_KEY
           = Some (mode_string m)
       \<and> themeMode (mount (storage (setThemeMode m (fold setThemeMode ms (mount st))))) = m"
proof -
  let ?a = "setThemeMode m (fold setThemeMode ms (mount st))"
  have "synced (mount st)" using assms by (rule mount_synced)
  then have "synced (fold setThemeMode ms (mount st))" by (rule fold_setThemeMode_synced)
  then have s: "synced ?a" by (rule setThemeMode_synced)
  have m: "themeMode ?a = m" by (rule setThemeMode_mode)
  from s m have "items (storage ?a) THEME_MODE_KEY = Some (mode_string m)"
    by (simp add: synced_def)
  moreover from mount_restores[OF s] m have "themeMode (mount (storage ?a)) = m" by simp
  ultimately show ?thesis by simp
qed

theorem themeMode_roundtrip_witness:
  "\<not> get_fails \<lparr>items = Map.empty, get_fails = False, set_fails = False\<rparr>
   \<and> \<not> set_fails \<lparr>items = Map.empty, get_fails = False, set_fails = False\<rparr>
   \<and> items (storage (setThemeMode Dark (fold setThemeMode [Light]
        (mount \<lparr>items = Map.empty, get_fails = False, set_fails = False\<rparr>)))) ''themeMode''
       = Some ''dark''
   \<and> themeMode (mount (storage (setThemeMode Dark (fold setThemeMode [Light]
        (mount \<lparr>items = Map.empty, get_fails = False, set_fails = False\<rparr>))))) = Dark"
  using themeMode_roundtrip[of "\<lparr>items = Map.empty, get_fails = False, set_fails = False\<rparr>" Dark "[Light]"]
  by (simp add: THEME_MODE_KEY_def)

text \<open>
  Claim C10. On mount, a read that settles with the string of a mode \<open>m\<close> (\<open>"light"\<close>,
  \<open>"dark"\<close> or \<open>"system"\<close>) makes \<open>themeMode\<close> that mode; a read that settles with anything
  else (another string, \<open>null\<close>) or that rejects leaves \<open>themeMode\<close> at \<open>"system"\<close>.
\<close>

theorem mount_applies_valid_only:
  "(getItem st THEME_MODE_KEY = Inr (Some (mode_string m)) \<longrightarrow> themeMode (mount st) = m)
   \<and> (getItem st THEME_MODE_KEY
          \<notin> {Inr (Some ''light''), Inr (Some ''dark''), Inr (Some ''system'')}
        \<longrightarrow> themeMode (mount st) = System)"
  by (cases m) (auto simp: mount_mode split: sum.splits)

theorem mount_applies_valid_only_witness:
  "themeMode (mount \<lparr>items = [''themeMode'' \<mapsto> ''dark''], get_fails = False, set_fails = False\<rparr>)
     = Dark
   \<and> themeMode (mount \<lparr>items = [''themeMode'' \<mapsto> ''Dark''], get_fails = False, set_fails = False\<rparr>)
     = System
   \<and> themeMode (mount \<lparr>items = Map.empty, get_fails = False, set_fails = False\<rparr>) = System
   \<and> themeMode (mount \<lparr>items = [''themeMode'' \<mapsto> ''dark''], get_fails = True, set_fails = False\<rparr>)
     = System"
  using mount_applies_valid_only
          [of "\<lparr>items = [''themeMode'' \<mapsto> ''dark''], get_fails = False, set_fails = False\<rparr>" Dark]
        mount_applies_valid_only
          [of "\<lparr>items = [''themeMode'' \<mapsto> ''Dark''], get_fails = False, set_fails = False\<rparr>" Dark]
        mount_applies_valid_only
          [of "\<lparr>items = Map.empty, get_fails = False, set_fails = False\<rparr>" Dark]
        mount_applies_valid_only
          [of "\<lparr>items = [''themeMode'' \<mapsto> ''dark''], get_fails = True, set_fails = False\<rparr>" Dark]
  by (simp add: getItem_def THEME_MODE_KEY_def)

text \<open>
  Claim C5. \<open>isDark\<close> holds exactly when the mode is \<open>"dark"\<close>, or the mode is \<open>"system"\<close>
  and the system colour scheme is \<open>"dark"\<close>; the provided theme is \<open>blueDark\<close> exactly when
  \<open>isDark\<close> holds and \<open>blueLight\<close> exactly when it does not (the two palettes being
  different objects).
\<close>

theorem theme_propagation:
  assumes "blueLight \<noteq> blueDark"
  shows "isDark mode scheme = (mode = Dark \<or> (mode = System \<and> scheme = Some SchemeDark))
       \<and> (theme blueLight blueDark mode scheme = blueDark) = isDark mode scheme
       \<and> (theme blueLight blueDark mode scheme = blueLight) = (\<not> isDark mode scheme)"
  using assms by (cases mode) (auto simp: isDark_def theme_def)

theorem theme_propagation_witness:
  "''blueLight'' \<noteq> ''blueDark''
   \<and> isDark System (Some SchemeDark)
   \<and> theme ''blueLight'' ''blueDark'' System (Some SchemeDark) = ''blueDark''
   \<and> theme ''blueLight'' ''blueDark'' Light (Some SchemeDark) = ''blueLight''"
proof -
  have d: "''blueLight'' \<noteq> ''blueDark''" by simp
  have l: "\<not> isDark Light (Some SchemeDark)" by (simp add: isDark_def)
  from theme_propagation[OF d, of System "Some SchemeDark"]
       theme_propagation[OF d, of Light "Some SchemeDark"] d l
  show ?thesis by simp
qed

section \<open>Properties of the command-line tool\<close>

lemma map_of_put_entry [simp]: "map_of (put_entry x t es) = (map_of es)(x \<mapsto> t)"
  by (induction es) (auto simp: fun_eq_iff)

lemma lookup_put_entry:
  "lookup (Dir (put_entry x t es)) (y # q) = (if y = x then lookup t q else lookup (Dir es) (y # q))"
  by (simp add: map_of_put_entry)

lemma view_Nil [simp]: "view f [] = Some (kind_of f)"
  by (simp add: view_def)

lemma view_File_Cons [simp]: "view (File c) (x # q) = None"
  by (simp add: view_def)

lemma view_Dir_Cons:
  "view (Dir es) (x # q) = (case map_of es x of None \<Rightarrow> None | Some t \<Rightarrow> view t q)"
  by (simp add: view_def split: option.splits)

lemma view_put_entry:
  "view (Dir (put_entry x t es)) (y # q) = (if y = x then view t q else view (Dir es) (y # q))"
  by (simp add: view_def lookup_put_entry)

lemma view_empty_dir [simp]: "view (Dir []) (x # q) = None"
  by (simp add: view_def)

lemma ensureDir_is_dir: "ensureDir f d = Inr f' \<Longrightarrow> kind_of f' = IsDir"
  by (cases f; cases d) (auto split: sum.splits)

lemma ensureDir_view:
  "ensureDir f d = Inr f' \<Longrightarrow> view f q = Some k \<Longrightarrow> view f' q = Some k"
proof (induction f d arbitrary: f' q k rule: ensureDir.induct)
  case (4 es x p)
  let ?t = "case map_of es x of None \<Rightarrow> Dir [] | Some t \<Rightarrow> t"
  from "4.prems"(1) obtain t' where e: "ensureDir ?t p = Inr t'"
    and f': "f' = Dir (put_entry x t' es)"
    by (auto split: sum.splits)
  show ?case
  proof (cases q)
    case Nil
    with "4.prems"(2) f' show ?thesis by simp
  next
    case (Cons y r)
    show ?thesis
    proof (cases "y = x")
      case False
      with Cons "4.prems"(2) f' show ?thesis by (simp add: view_put_entry)
    next
      case True
      with Cons "4.prems"(2) obtain t where m: "map_of es x = Some t" and v: "view t r = Some k"
        by (auto simp: view_Dir_Cons split: option.splits)
      from m e have "ensureDir t p = Inr t'" by simp
      with m have "view t' r = Some k" using v "4.IH"[of t' r k] by simp
      with True Cons f' show ?thesis by (simp add: view_put_entry)
    qed
  qed
qed simp_all

lemma ensureDir_le: "ensureDir f d = Inr f' \<Longrightarrow> view f \<subseteq>\<^sub>m view f'"
  by (auto simp: map_le_def dom_def dest: ensureDir_view)

lemma ensureDir_node:
  "ensureDir f d = Inr f' \<Longrightarrow> view f' q = view f q \<or> view f' q = Some IsDir"
proof (induction f d arbitrary: f' q rule: ensureDir.induct)
  case (4 es x p)
  let ?t = "case map_of es x of None \<Rightarrow> Dir [] | Some t \<Rightarrow> t"
  from "4.prems"(1) obtain t' where e: "ensureDir ?t p = Inr t'"
    and f': "f' = Dir (put_entry x t' es)"
    by (auto split: sum.splits)
  show ?case
  proof (cases q)
    case Nil
    with f' show ?thesis by simp
  next
    case (Cons y r)
    show ?thesis
    proof (cases "y = x")
      case False
      with Cons f' show ?thesis by (simp add: view_put_entry)
    next
      case True
      from e have "view t' r = view ?t r \<or> view t' r = Some IsDir" by (rule "4.IH")
      moreover have "view ?t r = view (Dir es) (x # r) \<or> (r = [] \<and> map_of es x = None)"
        by (cases r) (auto simp: view_Dir_Cons split: option.splits)
      moreover have "view t' [] = Some IsDir" using ensureDir_is_dir[OF e] by simp
      ultimately show ?thesis using True Cons f' by (auto simp: view_put_entry)
    qed
  qed
qed simp_all



lemma writeFile_view:
  "writeFile f p c = Inr f' \<Longrightarrow> view f' q = (if q = p then Some (IsFile c) else view f q)"
proof (induction f p c arbitrary: f' q rule: writeFile.induct)
  case (1 c' c)
  then show ?case by (cases q) auto
next
  case (4 es x p c)
  show ?case
  proof (cases "map_of es x")
    case None
    with "4.prems" have p: "p = []" and f': "f' = Dir (put_entry x (File c) es)"
      by (auto split: if_splits)
    show ?thesis
    proof (cases q)
      case Nil
      with f' show ?thesis by simp
    next
      case (Cons y r)
      with None p f' show ?thesis
        by (cases r) (auto simp: view_put_entry view_Dir_Cons)
    qed
  next
    case (Some t)
    with "4.prems" obtain t' where w: "writeFile t p c = Inr t'"
      and f': "f' = Dir (put_entry x t' es)"
      by (auto split: sum.splits)
    from Some w have IH: "view t' r = (if r = p then Some (IsFile c) else view t r)" for r
      by (rule "4.IH")
    show ?thesis
    proof (cases q)
      case Nil
      with f' show ?thesis by simp
    next
      case (Cons y r)
      with Some f' IH[of r] show ?thesis
        by (auto simp: view_put_entry view_Dir_Cons)
    qed
  qed
qed auto

lemma writeFile_result: "writeFile f p c = Inr f' \<Longrightarrow> view f' = (view f)(p \<mapsto> IsFile c)"
  by (auto simp: fun_eq_iff writeFile_view)


lemma lookup_append:
  "lookup f (p @ q) = (case lookup f p of None \<Rightarrow> None | Some t \<Rightarrow> lookup t q)"
  by (induction f p rule: lookup.induct) (auto split: option.splits)

lemma lookup_below_dir:
  assumes "lookup f (p @ q) \<noteq> None" and "q \<noteq> []"
  shows "\<exists>es. lookup f p = Some (Dir es)"
proof -
  from assms(1) obtain t where t: "lookup f p = Some t" and b: "lookup t q \<noteq> None"
    by (auto simp: lookup_append split: option.splits)
  from b assms(2) obtain es where "t = Dir es" by (cases t; cases q) auto
  with t show ?thesis by simp
qed

lemma readFile_lookup: "readFile f p = Inr c \<longleftrightarrow> lookup f p = Some (File c)"
  by (induction f p rule: readFile.induct) (auto split: option.splits)

lemma readFile_view: "readFile f p = Inr c \<longleftrightarrow> view f p = Some (IsFile c)"
proof (cases "lookup f p")
  case None
  then show ?thesis by (simp add: readFile_lookup view_def)
next
  case (Some n)
  then show ?thesis by (cases n) (simp_all add: readFile_lookup view_def)
qed

lemma say_fields [simp]:
  "files (say l s) = files s" "written (say l s) = written s"
  "exit_code (say l s) = exit_code s" "out (say l s) = out s @ [l]"
  by (simp_all add: say_def)

lemma showHelp_fields [simp]:
  "files (showHelp s) = files s" "written (showHelp s) = written s"
  "exit_code (showHelp s) = exit_code s" "out (showHelp s) = out s @ [Log HelpText]"
  by (simp_all add: showHelp_def)

lemma reportAdded_fields [simp]:
  "files (reportAdded name s) = files s" "written (reportAdded name s) = written s"
  "exit_code (reportAdded name s) = exit_code s"
  by (simp_all add: reportAdded_def Let_def)

lemma frame_say [simp]: "frame f0 (say l s) = frame f0 s"
  by (simp add: frame_def)

lemma cli_inv_say: "cli_inv f0 s \<Longrightarrow> handled l \<Longrightarrow> cli_inv f0 (say l s)"
  by (simp add: cli_inv_def)

lemma cli_inv_out:
  "cli_inv f0 s \<Longrightarrow> list_all handled ls \<Longrightarrow> cli_inv f0 (s\<lparr>out := out s @ ls\<rparr>)"
  by (simp add: cli_inv_def frame_def)

lemma reportAdded_inv: "cli_inv f0 s \<Longrightarrow> cli_inv f0 (reportAdded name s)"
  by (simp add: reportAdded_def Let_def cli_inv_say)

lemma view_lookup_None: "view f p = None \<longleftrightarrow> lookup f p = None"
  by (simp add: view_def)

lemma pathExists_view: "pathExists f p \<longleftrightarrow> view f p \<noteq> None"
  by (simp add: pathExists_def view_def)

lemma view_File: "view f p = Some (IsFile c) \<longleftrightarrow> lookup f p = Some (File c)"
proof (cases "lookup f p")
  case None
  then show ?thesis by (simp add: view_def)
next
  case (Some n)
  then show ?thesis by (cases n) (simp_all add: view_def)
qed

lemma view_Dir: "view f p = Some IsDir \<longleftrightarrow> (\<exists>es. lookup f p = Some (Dir es))"
proof (cases "lookup f p")
  case None
  then show ?thesis by (simp add: view_def)
next
  case (Some n)
  then show ?thesis by (cases n) (simp_all add: view_def)
qed

lemma process_cwd_view:
  "process_cwd cwd f = (if view f cwd = Some IsDir then Inr cwd else Inl ENOENT)"
  by (auto simp: process_cwd_def view_Dir split: option.splits node.splits)

lemma map_le_absent: "f0 \<subseteq>\<^sub>m f \<Longrightarrow> f p = None \<Longrightarrow> f0 p = None"
  by (cases "f0 p") (auto simp: map_le_def dom_def)

lemma map_le_upd_absent: "f0 \<subseteq>\<^sub>m f \<Longrightarrow> f0 p = None \<Longrightarrow> f0 \<subseteq>\<^sub>m f(p \<mapsto> v)"
  by (auto simp: map_le_def dom_def)

lemma map_le_kept: "f0 \<subseteq>\<^sub>m f \<Longrightarrow> f0 p = Some v \<Longrightarrow> f p = Some v"
  by (auto simp: map_le_def dom_def)

lemma copyFile_le:
  assumes "view f0 \<subseteq>\<^sub>m view (files s)" and "view f0 tgt = None"
  shows "view f0 \<subseteq>\<^sub>m view (files (snd (copyFile src tgt s)))"
proof (cases "ensureDir (files s) (butlast tgt)")
  case (Inl e)
  then show ?thesis using assms(1) by (simp add: copyFile_def)
next
  case (Inr f1)
  then have "view (files s) \<subseteq>\<^sub>m view f1" by (rule ensureDir_le)
  with assms(1) have le1: "view f0 \<subseteq>\<^sub>m view f1" by (rule map_le_trans)
  show ?thesis
  proof (cases "readFile f1 src")
    case (Inl e)
    then show ?thesis using Inr le1 by (simp add: copyFile_def)
  next
    case rd: (Inr content)
    show ?thesis
    proof (cases "writeFile f1 tgt content")
      case (Inl e)
      then show ?thesis using Inr rd le1 by (simp add: copyFile_def)
    next
      case wr: (Inr f2)
      then have "view f2 = (view f1)(tgt \<mapsto> IsFile content)" by (rule writeFile_result)
      with le1 assms(2) have "view f0 \<subseteq>\<^sub>m view f2" by (simp add: map_le_upd_absent)
      then show ?thesis using Inr rd wr by (simp add: copyFile_def)
    qed
  qed
qed

lemma copyFile_fields:
  "exit_code (snd (copyFile src tgt s)) = exit_code s"
  "written (snd (copyFile src tgt s)) = written s
     \<or> written (snd (copyFile src tgt s)) = written s @ [tgt]"
  by (auto simp: copyFile_def split: sum.splits)

lemma copyFile_handled:
  "list_all handled (out s) \<Longrightarrow> list_all handled (out (snd (copyFile src tgt s)))"
  by (auto simp: copyFile_def split: sum.splits)

lemma copyFile_inv:
  assumes "cli_inv f0 s" and "view f0 tgt = None"
  shows "cli_inv f0 (snd (copyFile src tgt s))"
proof -
  from assms(1) have "view f0 \<subseteq>\<^sub>m view (files s)" by (simp add: cli_inv_def frame_def)
  then have "view f0 \<subseteq>\<^sub>m view (files (snd (copyFile src tgt s)))"
    using assms(2) by (rule copyFile_le)
  moreover have "list_all (\<lambda>p. lookup f0 p = None) (written (snd (copyFile src tgt s)))"
    using copyFile_fields(2)[of src tgt s] assms
    by (auto simp: cli_inv_def frame_def view_lookup_None)
  ultimately show ?thesis using assms(1)
    by (simp add: cli_inv_def frame_def copyFile_fields(1) copyFile_handled)
qed

lemma absent_target:
  assumes "view f0 \<subseteq>\<^sub>m view (files s)" and "\<not> pathExists (files s) p"
  shows "view f0 p = None"
proof -
  from assms(2) have "view (files s) p = None" by (simp add: pathExists_view)
  with assms(1) show ?thesis by (rule map_le_absent)
qed

lemma addRelatedContext_alive:
  assumes "view (files s) cwd = Some IsDir"
  shows "addRelatedContext dirname cwd contextName s =
     (if contextName \<notin> set availableContexts
      then (Inr False, say (Err (ContextNotAvailable contextName)) s)
      else if pathExists (files s) (cwd @ [''context'', contextName @ ''.tsx''])
      then (Inr True, say (Log (AlreadyExists contextName)) s)
      else (Inr (fst (copyFile (dirname @ [''context'', contextName @ ''.tsx''])
                        (cwd @ [''context'', contextName @ ''.tsx'']) s)),
            if fst (copyFile (dirname @ [''context'', contextName @ ''.tsx''])
                      (cwd @ [''context'', contextName @ ''.tsx'']) s)
            then say (Log (AutomaticallyAdded contextName))
                   (snd (copyFile (dirname @ [''context'', contextName @ ''.tsx''])
                           (cwd @ [''context'', contextName @ ''.tsx'']) s))
            else snd (copyFile (dirname @ [''context'', contextName @ ''.tsx''])
                        (cwd @ [''context'', contextName @ ''.tsx'']) s)))"
  using assms
  by (simp add: addRelatedContext_def process_cwd_view Let_def split: prod.splits)

lemma addRelatedContext_gone:
  assumes "view (files s) cwd \<noteq> Some IsDir" and "contextName \<in> set availableContexts"
  shows "addRelatedContext dirname cwd contextName s = (Inl ENOENT, s)"
  using assms by (simp add: addRelatedContext_def process_cwd_view)

lemma addRelatedContext_returns:
  assumes "view (files s) cwd = Some IsDir"
  shows "\<exists>b. fst (addRelatedContext dirname cwd contextName s) = Inr b"
  by (auto simp: addRelatedContext_alive[OF assms])

lemma addRelatedContext_le:
  assumes "view f0 \<subseteq>\<^sub>m view (files s)"
  shows "view f0 \<subseteq>\<^sub>m view (files (snd (addRelatedContext dirname cwd contextName s)))"
proof (cases "view (files s) cwd = Some IsDir")
  case False
  then show ?thesis using assms
    by (cases "contextName \<in> set availableContexts")
       (simp_all add: addRelatedContext_gone, simp add: addRelatedContext_def)
next
  case True
  let ?t = "cwd @ [''context'', contextName @ ''.tsx'']"
  show ?thesis
  proof (cases "contextName \<in> set availableContexts \<and> \<not> pathExists (files s) ?t")
    case False
    then show ?thesis using assms by (auto simp: addRelatedContext_alive[OF True])
  next
    case c: True
    then have "\<not> pathExists (files s) ?t" by simp
    with assms have "view f0 ?t = None" by (rule absent_target)
    with assms have "view f0 \<subseteq>\<^sub>m view (files (snd (copyFile
        (dirname @ [''context'', contextName @ ''.tsx'']) ?t s)))"
      by (rule copyFile_le)
    then show ?thesis using c by (simp add: addRelatedContext_alive[OF True])
  qed
qed

lemma addRelatedContext_inv:
  assumes "cli_inv f0 s" and "contextName \<in> set availableContexts"
  shows "cli_inv f0 (snd (addRelatedContext dirname cwd contextName s))"
proof (cases "view (files s) cwd = Some IsDir")
  case False
  then show ?thesis using assms by (simp add: addRelatedContext_gone)
next
  case True
  let ?t = "cwd @ [''context'', contextName @ ''.tsx'']"
  show ?thesis
  proof (cases "pathExists (files s) ?t")
    case e: True
    then show ?thesis using assms by (simp add: addRelatedContext_alive[OF True] cli_inv_say)
  next
    case False
    from assms(1) have "view f0 \<subseteq>\<^sub>m view (files s)" by (simp add: cli_inv_def frame_def)
    then have "view f0 ?t = None" using False by (rule absent_target)
    with assms(1) have "cli_inv f0 (snd (copyFile
        (dirname @ [''context'', contextName @ ''.tsx'']) ?t s))"
      by (rule copyFile_inv)
    then show ?thesis using False assms(2)
      by (simp add: addRelatedContext_alive[OF True] cli_inv_say)
  qed
qed

lemma copyFile_out: "set (out s) \<subseteq> set (out (snd (copyFile src tgt s)))"
  by (auto simp: copyFile_def split: sum.splits)

lemma addRelatedContext_out:
  "set (out s) \<subseteq> set (out (snd (addRelatedContext dirname cwd contextName s)))"
proof (cases "view (files s) cwd = Some IsDir")
  case False
  then show ?thesis
    by (cases "contextName \<in> set availableContexts")
       (simp_all add: addRelatedContext_gone, auto simp: addRelatedContext_def)
next
  case True
  have "set (out s) \<subseteq> set (out (snd (copyFile a b s)))" for a b by (rule copyFile_out)
  then show ?thesis by (auto simp: addRelatedContext_alive[OF True])
qed

lemma reportAdded_out: "set (out s) \<subseteq> set (out (reportAdded name s))"
  by (auto simp: reportAdded_def Let_def)

lemma related_literals:
  "''ToastContext'' \<in> set availableContexts"
  "''AlertContext'' \<in> set availableContexts"
  "''ThemeContext'' \<in> set availableContexts"
  by (simp_all add: availableContexts_def)

lemma valid_names: "isValidComponent name \<Longrightarrow> name \<noteq> [] \<and> name \<noteq> ''all''"
  by (auto simp: isValidComponent_def availableComponents_def availableContexts_def
                 availableThemes_def)

lemma target_alive:
  assumes "pathExists f (targetOf cwd name)"
  shows "view f cwd = Some IsDir"
proof -
  define q where "q = drop (length cwd) (targetOf cwd name)"
  have q: "targetOf cwd name = cwd @ q" and ne: "q \<noteq> []"
    by (simp_all add: q_def targetOf_def)
  from assms have "lookup f (cwd @ q) \<noteq> None" by (simp add: pathExists_def q)
  then have "\<exists>es. lookup f cwd = Some (Dir es)" using ne by (rule lookup_below_dir)
  then show ?thesis by (simp add: view_Dir)
qed

lemma copyFile_alive:
  assumes "view (files s) cwd = Some IsDir" and "\<not> pathExists (files s) tgt"
  shows "view (files (snd (copyFile src tgt s))) cwd = Some IsDir"
proof -
  from assms(2) have "view (files s) tgt = None" by (simp add: pathExists_view)
  with map_le_refl have "view (files s) \<subseteq>\<^sub>m view (files (snd (copyFile src tgt s)))"
    by (rule copyFile_le)
  then show ?thesis using assms(1) by (rule map_le_kept)
qed

lemma related_case:
  "fst x = Inr b \<Longrightarrow>
   (case x of (Inl e, s3) \<Rightarrow> (Inl e, s3) | (Inr b, s3) \<Rightarrow> (Inr True, s3)) = (Inr True, snd x)"
  by (cases x) auto

lemma addComponent_missing:
  "addComponent dirname cwd None s = (Inr (), showHelp (say (Err PleaseSpecify) s))"
  "addComponent dirname cwd (Some []) s = (Inr (), showHelp (say (Err PleaseSpecify) s))"
  by (subst addComponent.simps, simp)+

lemma addComponent_unknown:
  "name \<noteq> [] \<Longrightarrow> name \<noteq> ''all'' \<Longrightarrow> \<not> isValidComponent name \<Longrightarrow>
   addComponent dirname cwd (Some name) s =
     (Inr (),
      s\<lparr>out := out s @ [Err (NotAvailable name), Log AvailableComponents]
              @ map (\<lambda>comp. Log (Item comp)) availableComponents
              @ [Log AvailableThemes] @ map (\<lambda>t. Log (Item t)) availableThemes\<rparr>)"
  by (subst addComponent.simps) simp

lemma addComponent_gone:
  assumes "isValidComponent name" and "view (files s) cwd \<noteq> Some IsDir"
  shows "addComponent dirname cwd (Some name) s = (Inl ENOENT, s)"
proof -
  from valid_names[OF assms(1)] have n: "name \<noteq> []" "name \<noteq> ''all''" by simp_all
  consider (comp) "name \<in> set availableComponents"
    | (ctx) "name \<notin> set availableComponents" "name \<in> set availableContexts"
    | (thme) "name \<notin> set availableComponents" "name \<notin> set availableContexts"
            "name \<in> set availableThemes"
    using assms(1) by (auto simp: isValidComponent_def)
  then show ?thesis
  proof cases
    case comp
    with n assms show ?thesis
      by (subst addComponent.simps) (simp add: process_cwd_view)
  next
    case ctx
    with n assms show ?thesis
      by (subst addComponent.simps) (simp add: process_cwd_view)
  next
    case thme
    with n assms show ?thesis
      by (subst addComponent.simps) (simp add: process_cwd_view)
  qed
qed

lemma addComponent_exists:
  assumes "isValidComponent name" and "pathExists (files s) (targetOf cwd name)"
  shows "addComponent dirname cwd (Some name) s = (Inr (), say (Log (AlreadyExists name)) s)"
proof -
  from valid_names[OF assms(1)] have n: "name \<noteq> []" "name \<noteq> ''all''" by simp_all
  from assms(2) have a: "view (files s) cwd = Some IsDir" by (rule target_alive)
  consider (comp) "name \<in> set availableComponents"
    | (ctx) "name \<notin> set availableComponents" "name \<in> set availableContexts"
    | (thme) "name \<notin> set availableComponents" "name \<notin> set availableContexts"
            "name \<in> set availableThemes"
    using assms(1) by (auto simp: isValidComponent_def)
  then show ?thesis
  proof cases
    case comp
    with assms(2) have "pathExists (files s) (cwd @ [''components'', ''ui'', name @ ''.tsx''])"
      by (simp add: targetOf_def)
    with n comp assms(1) a show ?thesis
      by (subst addComponent.simps) (simp add: process_cwd_view)
  next
    case ctx
    with assms(2) have "pathExists (files s) (cwd @ [''context'', name @ ''.tsx''])"
      by (simp add: targetOf_def)
    with n ctx assms(1) a show ?thesis
      by (subst addComponent.simps) (simp add: process_cwd_view)
  next
    case thme
    with assms(2) have "pathExists (files s) (cwd @ [''themes'', name @ ''.ts''])"
      by (simp add: targetOf_def)
    with n thme assms(1) a show ?thesis
      by (subst addComponent.simps) (simp add: process_cwd_view)
  qed
qed

lemma related_returns:
  assumes "view (files t) cwd = Some IsDir"
  shows "(case addRelatedContext dirname cwd c t of
            (Inl e, s3) \<Rightarrow> (Inl e, s3) | (Inr b, s3) \<Rightarrow> (Inr True, s3))
         = (Inr True, snd (addRelatedContext dirname cwd c t))"
proof -
  from assms obtain b where "fst (addRelatedContext dirname cwd c t) = Inr b"
    using addRelatedContext_returns by blast
  then show ?thesis by (rule related_case)
qed

lemma addComponent_component_fresh:
  assumes "name \<in> set availableComponents"
    and "view (files s) cwd = Some IsDir"
    and "\<not> pathExists (files s) (cwd @ [''components'', ''ui'', name @ ''.tsx''])"
  shows "addComponent dirname cwd (Some name) s =
     (Inr (),
      reportAdded name
       (if name = ''Toast''
        then snd (addRelatedContext dirname cwd ''ToastContext''
               (snd (copyFile (dirname @ [''components'', ''ui'', name @ ''.tsx''])
                       (cwd @ [''components'', ''ui'', name @ ''.tsx'']) s)))
        else if name = ''Alert''
        then snd (addRelatedContext dirname cwd ''AlertContext''
               (snd (copyFile (dirname @ [''components'', ''ui'', name @ ''.tsx''])
                       (cwd @ [''components'', ''ui'', name @ ''.tsx'']) s)))
        else snd (copyFile (dirname @ [''components'', ''ui'', name @ ''.tsx''])
                    (cwd @ [''components'', ''ui'', name @ ''.tsx'']) s)))"
proof -
  let ?src = "dirname @ [''components'', ''ui'', name @ ''.tsx'']"
  let ?tgt = "cwd @ [''components'', ''ui'', name @ ''.tsx'']"
  let ?s2 = "snd (copyFile ?src ?tgt s)"
  from assms(1) have v: "isValidComponent name" by (simp add: isValidComponent_def)
  from valid_names[OF v] have n: "name \<noteq> []" "name \<noteq> ''all''" by simp_all
  from assms(2,3) have "view (files ?s2) cwd = Some IsDir" by (rule copyFile_alive)
  then have k: "(case addRelatedContext dirname cwd c ?s2 of
              (Inl e, s3) \<Rightarrow> (Inl e, s3) | (Inr b, s3) \<Rightarrow> (Inr True, s3))
           = (Inr True, snd (addRelatedContext dirname cwd c ?s2))" for c
    by (rule related_returns)
  have pre: "addComponent dirname cwd (Some name) s =
     (case (if name = ''Toast'' then
              (case addRelatedContext dirname cwd ''ToastContext'' ?s2 of
                 (Inl e, s3) \<Rightarrow> (Inl e, s3) | (Inr b, s3) \<Rightarrow> (Inr True, s3))
            else if name = ''Alert'' then
              (case addRelatedContext dirname cwd ''AlertContext'' ?s2 of
                 (Inl e, s3) \<Rightarrow> (Inl e, s3) | (Inr b, s3) \<Rightarrow> (Inr True, s3))
            else (Inr True, ?s2))
      of (Inl e, s1) \<Rightarrow> (Inl e, s1)
       | (Inr added, s1) \<Rightarrow> (Inr (), if added then reportAdded name s1 else s1))"
    using n assms v
    by (subst addComponent.simps) (simp add: process_cwd_view Let_def)
  show ?thesis unfolding pre k by simp
qed

lemma addComponent_context_fresh:
  assumes "name \<notin> set availableComponents" and "name \<in> set availableContexts"
    and "view (files s) cwd = Some IsDir"
    and "\<not> pathExists (files s) (cwd @ [''context'', name @ ''.tsx''])"
  shows "addComponent dirname cwd (Some name) s =
     (Inr (),
      reportAdded name
       (snd (copyFile (dirname @ [''context'', name @ ''.tsx''])
               (cwd @ [''context'', name @ ''.tsx'']) s)))"
proof -
  from assms(2) have v: "isValidComponent name" by (simp add: isValidComponent_def)
  from valid_names[OF v] have "name \<noteq> []" "name \<noteq> ''all''" by simp_all
  then show ?thesis using assms v
    by (subst addComponent.simps) (simp add: process_cwd_view Let_def)
qed

lemma addComponent_theme_fresh:
  assumes "name \<notin> set availableComponents" and "name \<notin> set availableContexts"
    and "name \<in> set availableThemes"
    and "view (files s) cwd = Some IsDir"
    and "\<not> pathExists (files s) (cwd @ [''themes'', name @ ''.ts''])"
  shows "addComponent dirname cwd (Some name) s =
     (Inr (),
      reportAdded name
       (snd (addRelatedContext dirname cwd ''ThemeContext''
          (snd (copyFile (dirname @ [''themes'', name @ ''.ts''])
                  (cwd @ [''themes'', name @ ''.ts'']) s)))))"
proof -
  let ?s2 = "snd (copyFile (dirname @ [''themes'', name @ ''.ts''])
                    (cwd @ [''themes'', name @ ''.ts'']) s)"
  from assms(3) have v: "isValidComponent name" by (simp add: isValidComponent_def)
  from valid_names[OF v] have n: "name \<noteq> []" "name \<noteq> ''all''" by simp_all
  from assms(4,5) have "view (files ?s2) cwd = Some IsDir" by (rule copyFile_alive)
  then have k: "(case addRelatedContext dirname cwd ''ThemeContext'' ?s2 of
              (Inl e, s3) \<Rightarrow> (Inl e, s3) | (Inr b, s3) \<Rightarrow> (Inr True, s3))
           = (Inr True, snd (addRelatedContext dirname cwd ''ThemeContext'' ?s2))"
    by (rule related_returns)
  from n assms v show ?thesis
    by (subst addComponent.simps) (simp add: process_cwd_view Let_def k)
qed

lemma targetOf_cases:
  "name \<in> set availableComponents \<Longrightarrow>
     targetOf cwd name = cwd @ [''components'', ''ui'', name @ ''.tsx'']"
  "name \<notin> set availableComponents \<Longrightarrow> name \<in> set availableContexts \<Longrightarrow>
     targetOf cwd name = cwd @ [''context'', name @ ''.tsx'']"
  "name \<notin> set availableComponents \<Longrightarrow> name \<notin> set availableContexts \<Longrightarrow>
     targetOf cwd name = cwd @ [''themes'', name @ ''.ts'']"
  by (simp_all add: targetOf_def)

lemma sourceOf_cases:
  "name \<in> set availableComponents \<Longrightarrow>
     sourceOf dirname name = dirname @ [''components'', ''ui'', name @ ''.tsx'']"
  "name \<notin> set availableComponents \<Longrightarrow> name \<in> set availableContexts \<Longrightarrow>
     sourceOf dirname name = dirname @ [''context'', name @ ''.tsx'']"
  "name \<notin> set availableComponents \<Longrightarrow> name \<notin> set availableContexts \<Longrightarrow>
     sourceOf dirname name = dirname @ [''themes'', name @ ''.ts'']"
  by (simp_all add: sourceOf_def)

text \<open>The shapes a call of \<open>addComponent\<close> for anything but \<open>"all"\<close> can take.\<close>

lemma addComponent_shape:
  assumes "n \<noteq> Some ''all''"
  obtains
    (usage) "n = None \<or> n = Some []"
      "addComponent dirname cwd n s = (Inr (), showHelp (say (Err PleaseSpecify) s))"
  | (unknown) name where "n = Some name" "\<not> isValidComponent name"
      "addComponent dirname cwd n s =
         (Inr (),
          s\<lparr>out := out s @ [Err (NotAvailable name), Log AvailableComponents]
              @ map (\<lambda>comp. Log (Item comp)) availableComponents
              @ [Log AvailableThemes] @ map (\<lambda>t. Log (Item t)) availableThemes\<rparr>)"
  | (gone) name where "n = Some name" "isValidComponent name"
      "view (files s) cwd \<noteq> Some IsDir"
      "addComponent dirname cwd n s = (Inl ENOENT, s)"
  | (present) name where "n = Some name" "isValidComponent name"
      "pathExists (files s) (targetOf cwd name)"
      "addComponent dirname cwd n s = (Inr (), say (Log (AlreadyExists name)) s)"
  | (copied) name where "n = Some name" "isValidComponent name"
      "view (files s) cwd = Some IsDir" "\<not> pathExists (files s) (targetOf cwd name)"
      "addComponent dirname cwd n s =
         (Inr (), reportAdded name
                    (snd (copyFile (sourceOf dirname name) (targetOf cwd name) s)))"
  | (copied_with) name c where "n = Some name" "isValidComponent name"
      "view (files s) cwd = Some IsDir" "\<not> pathExists (files s) (targetOf cwd name)"
      "c \<in> set availableContexts"
      "addComponent dirname cwd n s =
         (Inr (), reportAdded name
                    (snd (addRelatedContext dirname cwd c
                       (snd (copyFile (sourceOf dirname name) (targetOf cwd name) s)))))"
proof (cases n)
  case None
  then show ?thesis using usage by (simp add: addComponent_missing)
next
  case (Some name)
  with assms have na: "name \<noteq> ''all''" by simp
  show ?thesis
  proof (cases "name = []")
    case True
    with Some show ?thesis using usage by (simp add: addComponent_missing)
  next
    case ne: False
    show ?thesis
    proof (cases "isValidComponent name")
      case False
      with Some show ?thesis using unknown[of name] addComponent_unknown[OF ne na False] by simp
    next
      case v: True
      show ?thesis
      proof (cases "view (files s) cwd = Some IsDir")
        case False
        with Some v show ?thesis using gone[of name] addComponent_gone[OF v False] by simp
      next
        case a: True
        show ?thesis
        proof (cases "pathExists (files s) (targetOf cwd name)")
          case True
          with Some v show ?thesis using present[of name] addComponent_exists[OF v True] by simp
        next
          case nex: False
          let ?c = "snd (copyFile (sourceOf dirname name) (targetOf cwd name) s)"
          consider (comp) "name \<in> set availableComponents"
            | (ctx) "name \<notin> set availableComponents" "name \<in> set availableContexts"
            | (thme) "name \<notin> set availableComponents" "name \<notin> set availableContexts"
                    "name \<in> set availableThemes"
            using v by (auto simp: isValidComponent_def)
          then show ?thesis
          proof cases
            case comp
            note t = targetOf_cases(1)[OF comp, of cwd]
              and u = sourceOf_cases(1)[OF comp, of dirname]
            have eq: "addComponent dirname cwd (Some name) s =
               (Inr (),
                reportAdded name
                  (if name = ''Toast''
                   then snd (addRelatedContext dirname cwd ''ToastContext'' ?c)
                   else if name = ''Alert''
                   then snd (addRelatedContext dirname cwd ''AlertContext'' ?c)
                   else ?c))"
              unfolding t u by (rule addComponent_component_fresh[OF comp a nex[unfolded t]])
            show ?thesis
            proof (cases "name = ''Toast''")
              case True
              with eq Some v a nex show ?thesis
                using copied_with[of name "''ToastContext''"] related_literals by simp
            next
              case nt: False
              show ?thesis
              proof (cases "name = ''Alert''")
                case True
                with eq Some v a nex nt show ?thesis
                  using copied_with[of name "''AlertContext''"] related_literals by simp
              next
                case False
                with eq Some v a nex nt show ?thesis using copied[of name] by simp
              qed
            qed
          next
            case ctx
            note t = targetOf_cases(2)[OF ctx, of cwd]
              and u = sourceOf_cases(2)[OF ctx, of dirname]
            have eq: "addComponent dirname cwd (Some name) s = (Inr (), reportAdded name ?c)"
              unfolding t u by (rule addComponent_context_fresh[OF ctx a nex[unfolded t]])
            with Some v a nex show ?thesis using copied[of name] by simp
          next
            case thme
            note t = targetOf_cases(3)[OF thme(1,2), of cwd]
              and u = sourceOf_cases(3)[OF thme(1,2), of dirname]
            have eq: "addComponent dirname cwd (Some name) s =
               (Inr (), reportAdded name
                          (snd (addRelatedContext dirname cwd ''ThemeContext'' ?c)))"
              unfolding t u by (rule addComponent_theme_fresh[OF thme a nex[unfolded t]])
            with Some v a nex show ?thesis
              using copied_with[of name "''ThemeContext''"] related_literals by simp
          qed
        qed
      qed
    qed
  qed
qed

lemma unknown_handled:
  "list_all handled ([Err (NotAvailable name), Log AvailableComponents]
      @ map (\<lambda>comp. Log (Item comp)) availableComponents
      @ [Log AvailableThemes] @ map (\<lambda>t. Log (Item t)) availableThemes)"
  by (auto simp: list_all_iff)

lemma addComponent_single_le:
  assumes "view f0 \<subseteq>\<^sub>m view (files s)" and "n \<noteq> Some ''all''"
  shows "view f0 \<subseteq>\<^sub>m view (files (snd (addComponent dirname cwd n s)))"
  using assms(2)
proof (cases rule: addComponent_shape[of n dirname cwd s])
  case (copied name)
  from assms(1) copied(4) have "view f0 (targetOf cwd name) = None" by (rule absent_target)
  with assms(1) show ?thesis unfolding copied(5) by (simp add: copyFile_le)
next
  case (copied_with name c)
  from assms(1) copied_with(4) have "view f0 (targetOf cwd name) = None"
    by (rule absent_target)
  with assms(1) show ?thesis unfolding copied_with(6)
    by (simp add: copyFile_le addRelatedContext_le)
qed (use assms(1) in simp_all)

lemma addComponent_single_inv:
  assumes "cli_inv f0 s" and "n \<noteq> Some ''all''"
  shows "cli_inv f0 (snd (addComponent dirname cwd n s))"
  using assms(2)
proof (cases rule: addComponent_shape[of n dirname cwd s])
  case usage
  with assms(1) show ?thesis by (simp add: cli_inv_def frame_def)
next
  case (unknown name)
  show ?thesis unfolding unknown(3) snd_conv
    using assms(1) unknown_handled by (rule cli_inv_out)
next
  case (gone name)
  with assms(1) show ?thesis by simp
next
  case (present name)
  with assms(1) show ?thesis by (simp add: cli_inv_say)
next
  case (copied name)
  from assms(1) have "view f0 \<subseteq>\<^sub>m view (files s)" by (simp add: cli_inv_def frame_def)
  then have "view f0 (targetOf cwd name) = None" using copied(4) by (rule absent_target)
  with assms(1) show ?thesis unfolding copied(5)
    by (simp add: copyFile_inv reportAdded_inv)
next
  case (copied_with name c)
  from assms(1) have "view f0 \<subseteq>\<^sub>m view (files s)" by (simp add: cli_inv_def frame_def)
  then have "view f0 (targetOf cwd name) = None" using copied_with(4) by (rule absent_target)
  with assms(1) copied_with(5) show ?thesis unfolding copied_with(6)
    by (simp add: copyFile_inv addRelatedContext_inv reportAdded_inv)
qed

lemma addComponent_single_out:
  assumes "n \<noteq> Some ''all''"
  shows "set (out s) \<subseteq> set (out (snd (addComponent dirname cwd n s)))"
  using assms
proof (cases rule: addComponent_shape[of n dirname cwd s])
  case (copied name)
  have "set (out s) \<subseteq> set (out (snd (copyFile (sourceOf dirname name) (targetOf cwd name) s)))"
    by (rule copyFile_out)
  also have "\<dots> \<subseteq> set (out (reportAdded name
                 (snd (copyFile (sourceOf dirname name) (targetOf cwd name) s))))"
    by (rule reportAdded_out)
  finally show ?thesis unfolding copied(5) by simp
next
  case (copied_with name c)
  let ?c = "snd (copyFile (sourceOf dirname name) (targetOf cwd name) s)"
  have "set (out s) \<subseteq> set (out ?c)" by (rule copyFile_out)
  also have "\<dots> \<subseteq> set (out (snd (addRelatedContext dirname cwd c ?c)))"
    by (rule addRelatedContext_out)
  also have "\<dots> \<subseteq> set (out (reportAdded name (snd (addRelatedContext dirname cwd c ?c))))"
    by (rule reportAdded_out)
  finally show ?thesis unfolding copied_with(6) by simp
qed auto

lemma addComponent_single_returns:
  assumes "view (files s) cwd = Some IsDir" and "n \<noteq> Some ''all''"
  shows "fst (addComponent dirname cwd n s) = Inr ()"
  using assms(2)
  by (cases rule: addComponent_shape[of n dirname cwd s]) (use assms(1) in simp_all)

lemma addComponent_single_alive:
  assumes "view (files s) cwd = Some IsDir" and "n \<noteq> Some ''all''"
  shows "view (files (snd (addComponent dirname cwd n s))) cwd = Some IsDir"
proof -
  from map_le_refl assms(2)
  have "view (files s) \<subseteq>\<^sub>m view (files (snd (addComponent dirname cwd n s)))"
    by (rule addComponent_single_le)
  then show ?thesis using assms(1) by (rule map_le_kept)
qed

text \<open>The loop over all items: it runs to its end as long as the working directory exists.\<close>

lemma loop_thrown:
  "fold (\<lambda>item (r, t). case r of Inl e \<Rightarrow> (Inl e, t)
                                | Inr u \<Rightarrow> addComponent dirname cwd (Some item) t)
        xs (Inl e, s) = (Inl e, s)"
  by (induction xs) simp_all

lemma loop_returns:
  assumes "view (files s) cwd = Some IsDir" and "''all'' \<notin> set xs"
  shows "fold (\<lambda>item (r, t). case r of Inl e \<Rightarrow> (Inl e, t)
                                | Inr u \<Rightarrow> addComponent dirname cwd (Some item) t)
           xs (Inr (), s)
         = (Inr (), fold (\<lambda>item t. snd (addComponent dirname cwd (Some item) t)) xs s)"
  using assms
proof (induction xs arbitrary: s)
  case Nil
  then show ?case by simp
next
  case (Cons a xs)
  from Cons.prems(2) have na: "Some a \<noteq> Some ''all''" by auto
  let ?s = "snd (addComponent dirname cwd (Some a) s)"
  from Cons.prems(1) na have "fst (addComponent dirname cwd (Some a) s) = Inr ()"
    by (rule addComponent_single_returns)
  then have e: "addComponent dirname cwd (Some a) s = (Inr (), ?s)"
    by (cases "addComponent dirname cwd (Some a) s") simp
  from Cons.prems(1) na have "view (files ?s) cwd = Some IsDir"
    by (rule addComponent_single_alive)
  with Cons.IH[of ?s] Cons.prems(2) e show ?case by simp
qed

lemma all_items: "''all'' \<notin> set (availableComponents @ availableThemes)"
  by (simp add: availableComponents_def availableThemes_def)

lemma all_items_valid:
  "x \<in> set (availableComponents @ availableThemes) \<Longrightarrow> isValidComponent x"
  by (auto simp: isValidComponent_def)

lemma addComponent_all_raw:
  "addComponent dirname cwd (Some ''all'') s =
     (case fold (\<lambda>item (r, t). case r of Inl e \<Rightarrow> (Inl e, t)
                              | Inr u \<Rightarrow> addComponent dirname cwd (Some item) t)
             (availableComponents @ availableThemes) (Inr (), s) of
        (Inl e, s1) \<Rightarrow> (Inl e, s1)
      | (Inr u, s1) \<Rightarrow> (Inr (), say (Log AddedAll) s1))"
  by (subst addComponent.simps) simp

lemma addComponent_all:
  assumes "view (files s) cwd = Some IsDir"
  shows "addComponent dirname cwd (Some ''all'') s =
     (Inr (), say (Log AddedAll)
                (fold (\<lambda>item t. snd (addComponent dirname cwd (Some item) t))
                   (availableComponents @ availableThemes) s))"
  unfolding addComponent_all_raw loop_returns[OF assms all_items] by simp

lemma addComponent_all_gone:
  assumes "view (files s) cwd \<noteq> Some IsDir"
  shows "addComponent dirname cwd (Some ''all'') s = (Inl ENOENT, s)"
proof -
  have v: "isValidComponent ''Alert''"
    by (simp add: isValidComponent_def availableComponents_def)
  have "availableComponents @ availableThemes
          = ''Alert'' # tl (availableComponents @ availableThemes)"
    by (simp add: availableComponents_def)
  then have "fold (\<lambda>item (r, t). case r of Inl e \<Rightarrow> (Inl e, t)
                              | Inr u \<Rightarrow> addComponent dirname cwd (Some item) t)
             (availableComponents @ availableThemes) (Inr (), s)
        = fold (\<lambda>item (r, t). case r of Inl e \<Rightarrow> (Inl e, t)
                              | Inr u \<Rightarrow> addComponent dirname cwd (Some item) t)
             (tl (availableComponents @ availableThemes))
             (addComponent dirname cwd (Some ''Alert'') s)"
    by (metis (no_types, lifting) fold_simps(2) old.prod.case sum.case(2))
  also have "\<dots> = (Inl ENOENT, s)"
    unfolding addComponent_gone[OF v assms] by (rule loop_thrown)
  finally show ?thesis unfolding addComponent_all_raw by simp
qed

lemma fold_addComponent_inv:
  assumes "cli_inv f0 s" and "''all'' \<notin> set xs"
  shows "cli_inv f0 (fold (\<lambda>item t. snd (addComponent dirname cwd (Some item) t)) xs s)"
  using assms
proof (induction xs arbitrary: s)
  case Nil
  then show ?case by simp
next
  case (Cons a xs)
  from Cons.prems have "cli_inv f0 (snd (addComponent dirname cwd (Some a) s))"
    by (intro addComponent_single_inv) auto
  with Cons.IH Cons.prems(2) show ?case by simp
qed

lemma addComponent_inv:
  assumes "cli_inv f0 s"
  shows "cli_inv f0 (snd (addComponent dirname cwd n s))"
proof (cases "n = Some ''all''")
  case False
  with assms show ?thesis by (rule addComponent_single_inv)
next
  case True
  show ?thesis
  proof (cases "view (files s) cwd = Some IsDir")
    case False
    then show ?thesis unfolding True using assms by (simp add: addComponent_all_gone)
  next
    case a: True
    have "cli_inv f0 (fold (\<lambda>item t. snd (addComponent dirname cwd (Some item) t))
            (availableComponents @ availableThemes) s)"
      using assms all_items by (rule fold_addComponent_inv)
    then show ?thesis unfolding True addComponent_all[OF a] by (simp add: cli_inv_say)
  qed
qed

lemma addComponent_returns:
  assumes "view (files s) cwd = Some IsDir"
  shows "fst (addComponent dirname cwd n s) = Inr ()"
proof (cases "n = Some ''all''")
  case False
  with assms show ?thesis by (rule addComponent_single_returns)
next
  case True
  show ?thesis unfolding True addComponent_all[OF assms] by simp
qed

lemma cli_inv_init: "cli_inv f \<lparr>files = f, out = [], written = [], exit_code = 0\<rparr>"
  by (simp add: cli_inv_def frame_def)

lemma main_add_returns:
  assumes "fst (addComponent dirname cwd n \<lparr>files = f, out = [], written = [], exit_code = 0\<rparr>)
             = Inr ()"
  shows "main dirname cwd (Some ''add'') n f =
     snd (addComponent dirname cwd n \<lparr>files = f, out = [], written = [], exit_code = 0\<rparr>)"
  using assms
  by (cases "addComponent dirname cwd n \<lparr>files = f, out = [], written = [], exit_code = 0\<rparr>")
     (simp add: main_def)

lemma main_add_raises:
  assumes "fst (addComponent dirname cwd n \<lparr>files = f, out = [], written = [], exit_code = 0\<rparr>)
             = Inl e"
  shows "main dirname cwd (Some ''add'') n f =
     (say (Err (AnErrorOccurred e))
        (snd (addComponent dirname cwd n \<lparr>files = f, out = [], written = [], exit_code = 0\<rparr>)))
       \<lparr>exit_code := 1\<rparr>"
  using assms
  by (cases "addComponent dirname cwd n \<lparr>files = f, out = [], written = [], exit_code = 0\<rparr>")
     (simp add: main_def)

lemma main_add_alive:
  assumes "view f cwd = Some IsDir"
  shows "main dirname cwd (Some ''add'') n f =
     snd (addComponent dirname cwd n \<lparr>files = f, out = [], written = [], exit_code = 0\<rparr>)"
  by (rule main_add_returns) (simp add: addComponent_returns assms)

text \<open>What holds of every run of \<open>main\<close>, whether or not it ends in the \<open>catch\<close>.\<close>

lemma main_frame:
  "frame f (main dirname cwd command n f)"
  "list_all handled (out (main dirname cwd command n f))"
  "exit_code (main dirname cwd command n f) = 0
   \<or> exit_code (main dirname cwd command n f) = 1 \<and> command = Some ''add''
     \<and> (\<exists>e. out (main dirname cwd command n f) \<noteq> []
            \<and> last (out (main dirname cwd command n f)) = Err (AnErrorOccurred e))"
proof -
  let ?s = "\<lparr>files = f, out = [], written = [], exit_code = 0\<rparr>"
  let ?r = "addComponent dirname cwd n ?s"
  have i: "cli_inv f (snd ?r)" using cli_inv_init by (rule addComponent_inv)
  have a: "frame f (main dirname cwd (Some ''add'') n f)
         \<and> list_all handled (out (main dirname cwd (Some ''add'') n f))
         \<and> (exit_code (main dirname cwd (Some ''add'') n f) = 0
            \<or> exit_code (main dirname cwd (Some ''add'') n f) = 1
              \<and> (\<exists>e. out (main dirname cwd (Some ''add'') n f) \<noteq> []
                  \<and> last (out (main dirname cwd (Some ''add'') n f)) = Err (AnErrorOccurred e)))"
  proof (cases "fst ?r")
    case (Inl e)
    show ?thesis unfolding main_add_raises[OF Inl] using i
      by (auto simp: cli_inv_def frame_def)
  next
    case (Inr u)
    then have "fst ?r = Inr ()" by simp
    then have "main dirname cwd (Some ''add'') n f = snd ?r" by (rule main_add_returns)
    then show ?thesis using i by (simp add: cli_inv_def)
  qed
  have o: "cli_inv f (listComponents ?s)" "cli_inv f (showHelp ?s)"
    "cli_inv f (showHelp (say (Err (UnknownCommand command)) ?s))"
    by (auto simp: listComponents_def cli_inv_def frame_def list_all_iff)
  show "frame f (main dirname cwd command n f)"
    using a o by (cases "command = Some ''add''") (auto simp: main_def Let_def cli_inv_def)
  show "list_all handled (out (main dirname cwd command n f))"
    using a o by (cases "command = Some ''add''") (auto simp: main_def Let_def cli_inv_def)
  show "exit_code (main dirname cwd command n f) = 0
   \<or> exit_code (main dirname cwd command n f) = 1 \<and> command = Some ''add''
     \<and> (\<exists>e. out (main dirname cwd command n f) \<noteq> []
            \<and> last (out (main dirname cwd command n f)) = Err (AnErrorOccurred e))"
  proof (cases "command = Some ''add''")
    case True
    with a show ?thesis by simp
  next
    case False
    with o show ?thesis by (simp add: main_def Let_def cli_inv_def)
  qed
qed


lemma copyFile_outcome:
  "pathExists (files (snd (copyFile src tgt s))) tgt
   \<or> (\<exists>e. Err (FailedToCopy src e) \<in> set (out (snd (copyFile src tgt s))))"
proof (cases "ensureDir (files s) (butlast tgt)")
  case (Inl e)
  then show ?thesis by (auto simp: copyFile_def)
next
  case (Inr f1)
  show ?thesis
  proof (cases "readFile f1 src")
    case (Inl e)
    with Inr show ?thesis by (auto simp: copyFile_def)
  next
    case rd: (Inr content)
    show ?thesis
    proof (cases "writeFile f1 tgt content")
      case (Inl e)
      with Inr rd show ?thesis by (auto simp: copyFile_def)
    next
      case wr: (Inr f2)
      then have "view f2 tgt = Some (IsFile content)" by (simp add: writeFile_view)
      with Inr rd wr show ?thesis by (simp add: copyFile_def pathExists_view)
    qed
  qed
qed

lemma copyFile_fails:
  assumes "view (files s) src = None"
  shows "\<exists>e. out (snd (copyFile src tgt s)) = out s @ [Err (FailedToCopy src e)]"
proof (cases "ensureDir (files s) (butlast tgt)")
  case (Inl e)
  then show ?thesis by (simp add: copyFile_def)
next
  case (Inr f1)
  then have "view f1 src = view (files s) src \<or> view f1 src = Some IsDir"
    by (rule ensureDir_node)
  with assms have "view f1 src = None \<or> view f1 src = Some IsDir" by simp
  then have "\<exists>e. readFile f1 src = Inl e"
    by (cases "readFile f1 src") (auto simp: readFile_view)
  then obtain e where "readFile f1 src = Inl e" ..
  with Inr show ?thesis by (simp add: copyFile_def)
qed


lemma pathExists_kept: "view f \<subseteq>\<^sub>m view g \<Longrightarrow> pathExists f p \<Longrightarrow> pathExists g p"
  by (auto simp: pathExists_view dest: map_le_kept)

lemma addComponent_copy_fails:
  assumes "isValidComponent name" and "view (files s) cwd = Some IsDir"
    and "\<not> pathExists (files s) (targetOf cwd name)"
    and "view (files s) (sourceOf dirname name) = None"
  shows "\<exists>e. Err (FailedToCopy (sourceOf dirname name) e)
               \<in> set (out (snd (addComponent dirname cwd (Some name) s)))"
proof -
  let ?c = "snd (copyFile (sourceOf dirname name) (targetOf cwd name) s)"
  from copyFile_fails[OF assms(4)] obtain e
    where "out ?c = out s @ [Err (FailedToCopy (sourceOf dirname name) e)]" ..
  then have m: "Err (FailedToCopy (sourceOf dirname name) e) \<in> set (out ?c)" by simp
  from valid_names[OF assms(1)] have "Some name \<noteq> Some ''all''" by simp
  then have "Err (FailedToCopy (sourceOf dirname name) e)
               \<in> set (out (snd (addComponent dirname cwd (Some name) s)))"
  proof (cases rule: addComponent_shape[of "Some name" dirname cwd s])
    case (copied name')
    then show ?thesis using m reportAdded_out by auto
  next
    case (copied_with name' c)
    then show ?thesis using m reportAdded_out addRelatedContext_out by fastforce
  qed (use assms in \<open>auto dest: valid_names\<close>)
  then show ?thesis ..
qed


lemma addComponent_item_done:
  assumes "isValidComponent x" and "view (files s) cwd = Some IsDir"
  shows "pathExists (files (snd (addComponent dirname cwd (Some x) s))) (targetOf cwd x)
       \<or> (\<exists>e. Err (FailedToCopy (sourceOf dirname x) e)
                \<in> set (out (snd (addComponent dirname cwd (Some x) s))))"
proof -
  let ?c = "snd (copyFile (sourceOf dirname x) (targetOf cwd x) s)"
  note o = copyFile_outcome[of "sourceOf dirname x" "targetOf cwd x" s]
  from valid_names[OF assms(1)] have "Some x \<noteq> Some ''all''" by simp
  then show ?thesis
  proof (cases rule: addComponent_shape[of "Some x" dirname cwd s])
    case (present name)
    then show ?thesis by auto
  next
    case (copied name)
    then have e: "addComponent dirname cwd (Some x) s = (Inr (), reportAdded x ?c)" by simp
    from o show ?thesis unfolding e using reportAdded_out[of ?c x] by auto
  next
    case (copied_with name c)
    then have e: "addComponent dirname cwd (Some x) s =
        (Inr (), reportAdded x (snd (addRelatedContext dirname cwd c ?c)))" by simp
    from o show ?thesis
    proof
      assume "pathExists (files ?c) (targetOf cwd x)"
      with addRelatedContext_le[OF map_le_refl]
      have "pathExists (files (snd (addRelatedContext dirname cwd c ?c))) (targetOf cwd x)"
        by (rule pathExists_kept)
      then show ?thesis unfolding e by simp
    next
      assume "\<exists>e. Err (FailedToCopy (sourceOf dirname x) e) \<in> set (out ?c)"
      then show ?thesis unfolding e
        using reportAdded_out[of "snd (addRelatedContext dirname cwd c ?c)" x]
              addRelatedContext_out[of ?c dirname cwd c] by auto
    qed
  qed (use assms in \<open>auto dest: valid_names\<close>)
qed

lemma fold_addComponent_out:
  assumes "''all'' \<notin> set xs"
  shows "set (out s)
     \<subseteq> set (out (fold (\<lambda>item t. snd (addComponent dirname cwd (Some item) t)) xs s))"
  using assms
proof (induction xs arbitrary: s)
  case Nil
  then show ?case by simp
next
  case (Cons a xs)
  from Cons.prems have "set (out s) \<subseteq> set (out (snd (addComponent dirname cwd (Some a) s)))"
    by (intro addComponent_single_out) auto
  moreover from Cons.prems have
    "set (out (snd (addComponent dirname cwd (Some a) s)))
       \<subseteq> set (out (fold (\<lambda>item t. snd (addComponent dirname cwd (Some item) t)) xs
                       (snd (addComponent dirname cwd (Some a) s))))"
    by (intro Cons.IH) simp
  ultimately show ?case by simp
qed

lemma fold_addComponent_le:
  assumes "view f0 \<subseteq>\<^sub>m view (files s)" and "''all'' \<notin> set xs"
  shows "view f0
     \<subseteq>\<^sub>m view (files (fold (\<lambda>item t. snd (addComponent dirname cwd (Some item) t)) xs s))"
  using assms
proof (induction xs arbitrary: s)
  case Nil
  then show ?case by simp
next
  case (Cons a xs)
  from Cons.prems have "view f0 \<subseteq>\<^sub>m view (files (snd (addComponent dirname cwd (Some a) s)))"
    by (intro addComponent_single_le) auto
  with Cons.IH Cons.prems(2) show ?case by simp
qed

lemma fold_addComponent_reports:
  assumes "cli_inv f s" and "''all'' \<notin> set xs" and "x \<in> set xs"
    and "isValidComponent x" and "pathExists f (targetOf cwd x)"
  shows "Log (AlreadyExists x)
           \<in> set (out (fold (\<lambda>item t. snd (addComponent dirname cwd (Some item) t)) xs s))"
  using assms(1,2,3)
proof (induction xs arbitrary: s)
  case Nil
  then show ?case by simp
next
  case (Cons a xs)
  from Cons.prems(2) have a: "Some a \<noteq> Some ''all''" and r: "''all'' \<notin> set xs" by auto
  let ?s = "snd (addComponent dirname cwd (Some a) s)"
  show ?case
  proof (cases "a = x")
    case True
    from Cons.prems(1) have "view f \<subseteq>\<^sub>m view (files s)" by (simp add: cli_inv_def frame_def)
    then have "pathExists (files s) (targetOf cwd x)" using assms(5) by (rule pathExists_kept)
    with assms(4) have "addComponent dirname cwd (Some x) s
                          = (Inr (), say (Log (AlreadyExists x)) s)"
      by (rule addComponent_exists)
    then have "Log (AlreadyExists x) \<in> set (out ?s)" using True by simp
    moreover have "set (out ?s)
        \<subseteq> set (out (fold (\<lambda>item t. snd (addComponent dirname cwd (Some item) t)) xs ?s))"
      using r by (rule fold_addComponent_out)
    ultimately show ?thesis by auto
  next
    case False
    with Cons.prems(3) have "x \<in> set xs" by simp
    moreover have "cli_inv f ?s" using Cons.prems(1) a by (rule addComponent_single_inv)
    ultimately have "Log (AlreadyExists x)
        \<in> set (out (fold (\<lambda>item t. snd (addComponent dirname cwd (Some item) t)) xs ?s))"
      using r by (intro Cons.IH)
    then show ?thesis by simp
  qed
qed

lemma fold_addComponent_done:
  assumes "view (files s) cwd = Some IsDir" and "''all'' \<notin> set xs" and "x \<in> set xs"
    and "isValidComponent x"
  shows "pathExists (files (fold (\<lambda>item t. snd (addComponent dirname cwd (Some item) t)) xs s))
           (targetOf cwd x)
       \<or> (\<exists>e. Err (FailedToCopy (sourceOf dirname x) e)
                \<in> set (out (fold (\<lambda>item t. snd (addComponent dirname cwd (Some item) t)) xs s)))"
  using assms(1,2,3)
proof (induction xs arbitrary: s)
  case Nil
  then show ?case by simp
next
  case (Cons a xs)
  from Cons.prems(2) have a: "Some a \<noteq> Some ''all''" and r: "''all'' \<notin> set xs" by auto
  let ?s = "snd (addComponent dirname cwd (Some a) s)"
  let ?e = "fold (\<lambda>item t. snd (addComponent dirname cwd (Some item) t)) xs ?s"
  from Cons.prems(1) a have al: "view (files ?s) cwd = Some IsDir"
    by (rule addComponent_single_alive)
  show ?case
  proof (cases "a = x")
    case True
    have le: "view (files ?s) \<subseteq>\<^sub>m view (files ?e)"
      using map_le_refl r by (rule fold_addComponent_le)
    have o: "set (out ?s) \<subseteq> set (out ?e)" using r by (rule fold_addComponent_out)
    from addComponent_item_done[OF assms(4) Cons.prems(1), of dirname]
    show ?thesis
    proof
      assume "pathExists (files (snd (addComponent dirname cwd (Some x) s))) (targetOf cwd x)"
      with le True have "pathExists (files ?e) (targetOf cwd x)"
        by (auto intro: pathExists_kept)
      then show ?thesis by simp
    next
      assume "\<exists>e. Err (FailedToCopy (sourceOf dirname x) e)
                \<in> set (out (snd (addComponent dirname cwd (Some x) s)))"
      with o True show ?thesis by auto
    qed
  next
    case False
    with Cons.prems(3) have "x \<in> set xs" by simp
    with al r have "pathExists (files ?e) (targetOf cwd x)
       \<or> (\<exists>e. Err (FailedToCopy (sourceOf dirname x) e) \<in> set (out ?e))"
      by (intro Cons.IH)
    then show ?thesis by simp
  qed
qed









lemma main_missing:
  "n = None \<or> n = Some [] \<Longrightarrow>
   main dirname cwd (Some ''add'') n f =
     \<lparr>files = f, out = [Err PleaseSpecify, Log HelpText], written = [], exit_code = 0\<rparr>"
  by (auto simp: main_def addComponent_missing showHelp_def say_def)

lemma main_unknown_name:
  "name \<noteq> [] \<Longrightarrow> name \<noteq> ''all'' \<Longrightarrow> \<not> isValidComponent name \<Longrightarrow>
   main dirname cwd (Some ''add'') (Some name) f =
     \<lparr>files = f,
      out = [Err (NotAvailable name), Log AvailableComponents]
            @ map (\<lambda>comp. Log (Item comp)) availableComponents
            @ [Log AvailableThemes] @ map (\<lambda>t. Log (Item t)) availableThemes,
      written = [], exit_code = 0\<rparr>"
  by (simp add: main_def addComponent_unknown)

lemma main_exists:
  "isValidComponent name \<Longrightarrow> pathExists f (targetOf cwd name) \<Longrightarrow>
   main dirname cwd (Some ''add'') (Some name) f =
     \<lparr>files = f, out = [Log (AlreadyExists name)], written = [], exit_code = 0\<rparr>"
  by (simp add: main_def addComponent_exists say_def)

lemma main_unknown_command:
  "command \<notin> {Some ''add'', Some ''list'', Some ''help''} \<Longrightarrow>
   main dirname cwd command n f =
     \<lparr>files = f, out = [Err (UnknownCommand command), Log HelpText], written = [],
      exit_code = 0\<rparr>"
  by (simp add: main_def showHelp_def say_def)

lemma main_gone:
  assumes "isValidComponent name \<or> name = ''all''" and "view f cwd \<noteq> Some IsDir"
  shows "main dirname cwd (Some ''add'') (Some name) f =
     \<lparr>files = f, out = [Err (AnErrorOccurred ENOENT)], written = [], exit_code = 1\<rparr>"
proof -
  let ?s = "\<lparr>files = f, out = [], written = [], exit_code = 0\<rparr>"
  from assms(2) have g: "view (files ?s) cwd \<noteq> Some IsDir" by simp
  have "addComponent dirname cwd (Some name) ?s = (Inl ENOENT, ?s)"
    using assms(1) addComponent_gone[OF _ g] addComponent_all_gone[OF g] by auto
  then show ?thesis by (simp add: main_def say_def)
qed

lemma main_alive_exit:
  assumes "view f cwd = Some IsDir"
  shows "exit_code (main dirname cwd command n f) = 0"
proof (cases "command = Some ''add''")
  case True
  have "cli_inv f (snd (addComponent dirname cwd n
          \<lparr>files = f, out = [], written = [], exit_code = 0\<rparr>))"
    using cli_inv_init by (rule addComponent_inv)
  then show ?thesis unfolding True main_add_alive[OF assms] by (simp add: cli_inv_def)
next
  case False
  then show ?thesis by (simp add: main_def Let_def listComponents_def)
qed

lemma main_copy_fails:
  assumes "isValidComponent name" and "view f cwd = Some IsDir"
    and "\<not> pathExists f (targetOf cwd name)" and "lookup f (sourceOf dirname name) = None"
  shows "\<exists>e. Err (FailedToCopy (sourceOf dirname name) e)
         \<in> set (out (main dirname cwd (Some ''add'') (Some name) f))"
  unfolding main_add_alive[OF assms(2)]
  using assms by (intro addComponent_copy_fails) (simp_all add: view_lookup_None)


lemma main_all:
  assumes "view f cwd = Some IsDir"
  shows "main dirname cwd (Some ''add'') (Some ''all'') f =
     say (Log AddedAll)
       (fold (\<lambda>item t. snd (addComponent dirname cwd (Some item) t))
          (availableComponents @ availableThemes)
          \<lparr>files = f, out = [], written = [], exit_code = 0\<rparr>)"
  unfolding main_add_alive[OF assms] by (simp add: addComponent_all assms)


lemma main_all_reports:
  assumes "x \<in> set (availableComponents @ availableThemes)"
    and "pathExists f (targetOf cwd x)"
  shows "Log (AlreadyExists x) \<in> set (out (main dirname cwd (Some ''add'') (Some ''all'') f))"
proof -
  from assms(2) have a: "view f cwd = Some IsDir" by (rule target_alive)
  from assms(1) have "isValidComponent x" by (rule all_items_valid)
  with cli_inv_init all_items assms(1)
  have "Log (AlreadyExists x)
      \<in> set (out (fold (\<lambda>item t. snd (addComponent dirname cwd (Some item) t))
                    (availableComponents @ availableThemes)
                    \<lparr>files = f, out = [], written = [], exit_code = 0\<rparr>))"
    using assms(2) by (rule fold_addComponent_reports)
  then show ?thesis unfolding main_all[OF a] by simp
qed

text \<open>
  Claim C3, as amended. The tool has six failure modes, not two: a missing component name,
  an unknown component name, a target that already exists, a copy that fails, an unknown
  command, and a working directory that no longer exists. Every error line a run prints is
  one of the five error messages of \<open>handled\<close>, and every path that existed still holds
  what it held. The exit code is 0, except that an \<open>add\<close> ends with exit code 1 after the
  line of the error it caught; it is 0 whenever the working directory exists, and an \<open>add\<close>
  of a valid name or of \<open>all\<close> without a working directory prints that line, exits with
  code 1 and changes nothing. With a missing name, an unknown name, an existing target (of a
  single valid name) and an unknown command, the run prints exactly the message shown, exits
  with code 0 and leaves the file system as it was; a copy whose source does not exist
  prints the failed-copy error.
\<close>

theorem cli_failures_handled:
  "list_all handled (out (main dirname cwd command n f))
   \<and> view f \<subseteq>\<^sub>m view (files (main dirname cwd command n f))
   \<and> (exit_code (main dirname cwd command n f) = 0
       \<or> exit_code (main dirname cwd command n f) = 1 \<and> command = Some ''add''
         \<and> (\<exists>e. out (main dirname cwd command n f) \<noteq> []
                \<and> last (out (main dirname cwd command n f)) = Err (AnErrorOccurred e)))
   \<and> (view f cwd = Some IsDir \<longrightarrow> exit_code (main dirname cwd command n f) = 0)
   \<and> ((isValidComponent name \<or> name = ''all'') \<and> view f cwd \<noteq> Some IsDir \<longrightarrow>
        main dirname cwd (Some ''add'') (Some name) f =
          \<lparr>files = f, out = [Err (AnErrorOccurred ENOENT)], written = [], exit_code = 1\<rparr>)
   \<and> (n = None \<or> n = Some [] \<longrightarrow>
        main dirname cwd (Some ''add'') n f =
          \<lparr>files = f, out = [Err PleaseSpecify, Log HelpText], written = [], exit_code = 0\<rparr>)
   \<and> (name \<noteq> [] \<and> name \<noteq> ''all'' \<and> \<not> isValidComponent name \<longrightarrow>
        main dirname cwd (Some ''add'') (Some name) f =
          \<lparr>files = f,
           out = [Err (NotAvailable name), Log AvailableComponents]
                 @ map (\<lambda>comp. Log (Item comp)) availableComponents
                 @ [Log AvailableThemes] @ map (\<lambda>t. Log (Item t)) availableThemes,
           written = [], exit_code = 0\<rparr>)
   \<and> (isValidComponent name \<and> pathExists f (targetOf cwd name) \<longrightarrow>
        main dirname cwd (Some ''add'') (Some name) f =
          \<lparr>files = f, out = [Log (AlreadyExists name)], written = [], exit_code = 0\<rparr>)
   \<and> (command \<notin> {Some ''add'', Some ''list'', Some ''help''} \<longrightarrow>
        main dirname cwd command n f =
          \<lparr>files = f, out = [Err (UnknownCommand command), Log HelpText], written = [],
           exit_code = 0\<rparr>)
   \<and> (isValidComponent name \<and> view f cwd = Some IsDir \<and> \<not> pathExists f (targetOf cwd name)
        \<and> lookup f (sourceOf dirname name) = None \<longrightarrow>
        (\<exists>e. Err (FailedToCopy (sourceOf dirname name) e)
              \<in> set (out (main dirname cwd (Some ''add'') (Some name) f))))"
proof -
  note m = main_frame[where f = f and dirname = dirname and cwd = cwd and command = command
                         and n = n]
  from m(1) have 2: "view f \<subseteq>\<^sub>m view (files (main dirname cwd command n f))"
    by (simp add: frame_def)
  from m(2) 2 m(3) show ?thesis
    by (intro conjI impI main_alive_exit main_gone main_missing main_unknown_name main_exists
              main_unknown_command main_copy_fails)
       simp_all
qed

theorem cli_failures_handled_witness:
  "main [''pkg''] [''app''] (Some ''add'') None (Dir [(''app'', Dir [])]) =
     \<lparr>files = Dir [(''app'', Dir [])], out = [Err PleaseSpecify, Log HelpText], written = [],
      exit_code = 0\<rparr>
   \<and> out (main [''pkg''] [''app''] (Some ''add'') (Some ''Card'') (Dir [(''app'', Dir [])])) =
       [Err (NotAvailable ''Card''), Log AvailableComponents, Log (Item ''Alert''),
        Log (Item ''Button''), Log (Item ''RadioButton''), Log (Item ''SafeAreaView''),
        Log (Item ''SegmentedControl''), Log (Item ''Switch''), Log (Item ''Text''),
        Log (Item ''TextInput''), Log (Item ''Toast''), Log (Item ''View''),
        Log AvailableThemes, Log (Item ''blueTheme'')]
   \<and> main [''pkg''] [''app''] (Some ''add'') (Some ''Button'')
        (Dir [(''app'', Dir [(''components'', Dir [(''ui'',
           Dir [(''Button.tsx'', File ''mine'')])])])]) =
       \<lparr>files = Dir [(''app'', Dir [(''components'', Dir [(''ui'',
           Dir [(''Button.tsx'', File ''mine'')])])])],
        out = [Log (AlreadyExists ''Button'')], written = [], exit_code = 0\<rparr>
   \<and> main [''pkg''] [''app''] (Some ''remove'') (Some ''Button'') (Dir [(''app'', Dir [])]) =
       \<lparr>files = Dir [(''app'', Dir [])],
        out = [Err (UnknownCommand (Some ''remove'')), Log HelpText],
        written = [], exit_code = 0\<rparr>
   \<and> (\<exists>e. Err (FailedToCopy [''pkg'', ''components'', ''ui'', ''Button.tsx''] e)
         \<in> set (out (main [''pkg''] [''app''] (Some ''add'') (Some ''Button'')
                    (Dir [(''app'', Dir [])]))))
   \<and> main [''pkg''] [''app''] (Some ''add'') (Some ''Button'') (Dir []) =
       \<lparr>files = Dir [], out = [Err (AnErrorOccurred ENOENT)], written = [], exit_code = 1\<rparr>
   \<and> exit_code (main [''pkg''] [''app''] (Some ''add'') (Some ''all'') (Dir [(''app'', Dir [])]))
       = 0"
proof -
  let ?p = "Dir [(''app'', Dir [])]"
  let ?b = "Dir [(''app'', Dir [(''components'', Dir [(''ui'',
               Dir [(''Button.tsx'', File ''mine'')])])])]"
  have v: "\<not> isValidComponent ''Card''" "isValidComponent ''Button''"
    by (simp_all add: isValidComponent_def availableComponents_def availableContexts_def
                      availableThemes_def)
  have t: "targetOf [''app''] ''Button'' = [''app'', ''components'', ''ui'', ''Button.tsx'']"
    and u: "sourceOf [''pkg''] ''Button'' = [''pkg'', ''components'', ''ui'', ''Button.tsx'']"
    by (simp_all add: targetOf_def sourceOf_def availableComponents_def)
  have e: "pathExists ?b (targetOf [''app''] ''Button'')"
    unfolding t by (simp add: pathExists_def)
  have a: "view ?p [''app''] = Some IsDir" "view (Dir []) [''app''] \<noteq> Some IsDir"
    by (simp_all add: view_def)
  have ne: "\<not> pathExists ?p (targetOf [''app''] ''Button'')"
    and ns: "lookup ?p (sourceOf [''pkg''] ''Button'') = None"
    unfolding t u by (simp_all add: pathExists_def)
  note T = cli_failures_handled
  have 1: "main [''pkg''] [''app''] (Some ''add'') None ?p =
     \<lparr>files = ?p, out = [Err PleaseSpecify, Log HelpText], written = [], exit_code = 0\<rparr>"
    using T[where n = None and f = ?p and dirname = "[''pkg'']" and cwd = "[''app'']"
              and command = "Some ''add''" and name = "''Card''"]
    by simp
  have "main [''pkg''] [''app''] (Some ''add'') (Some ''Card'') ?p =
          \<lparr>files = ?p,
           out = [Err (NotAvailable ''Card''), Log AvailableComponents]
                 @ map (\<lambda>comp. Log (Item comp)) availableComponents
                 @ [Log AvailableThemes] @ map (\<lambda>t. Log (Item t)) availableThemes,
           written = [], exit_code = 0\<rparr>"
    using T[where n = None and f = ?p and dirname = "[''pkg'']" and cwd = "[''app'']"
              and command = "Some ''add''" and name = "''Card''"] v(1)
    by simp
  then have 2: "out (main [''pkg''] [''app''] (Some ''add'') (Some ''Card'') ?p) =
       [Err (NotAvailable ''Card''), Log AvailableComponents, Log (Item ''Alert''),
        Log (Item ''Button''), Log (Item ''RadioButton''), Log (Item ''SafeAreaView''),
        Log (Item ''SegmentedControl''), Log (Item ''Switch''), Log (Item ''Text''),
        Log (Item ''TextInput''), Log (Item ''Toast''), Log (Item ''View''),
        Log AvailableThemes, Log (Item ''blueTheme'')]"
    by (simp add: availableComponents_def availableThemes_def)
  have 3: "main [''pkg''] [''app''] (Some ''add'') (Some ''Button'') ?b =
       \<lparr>files = ?b, out = [Log (AlreadyExists ''Button'')], written = [], exit_code = 0\<rparr>"
    using T[where n = None and f = ?b and dirname = "[''pkg'']" and cwd = "[''app'']"
              and command = "Some ''add''" and name = "''Button''"] v(2) e
    by simp
  have c: "Some ''remove'' \<notin> {Some ''add'', Some ''list'', Some ''help''}" by simp
  have 4: "main [''pkg''] [''app''] (Some ''remove'') (Some ''Button'') ?p =
       \<lparr>files = ?p, out = [Err (UnknownCommand (Some ''remove'')), Log HelpText],
        written = [], exit_code = 0\<rparr>"
    using T[where n = "Some ''Button''" and f = ?p and dirname = "[''pkg'']"
              and cwd = "[''app'']" and command = "Some ''remove''" and name = "''Card''"] c
    by simp
  have 5: "\<exists>e. Err (FailedToCopy [''pkg'', ''components'', ''ui'', ''Button.tsx''] e)
         \<in> set (out (main [''pkg''] [''app''] (Some ''add'') (Some ''Button'') ?p))"
    using T[where n = None and f = ?p and dirname = "[''pkg'']" and cwd = "[''app'']"
              and command = "Some ''add''" and name = "''Button''"] v(2) a(1) ne ns
    unfolding u by simp
  have 6: "main [''pkg''] [''app''] (Some ''add'') (Some ''Button'') (Dir []) =
       \<lparr>files = Dir [], out = [Err (AnErrorOccurred ENOENT)], written = [], exit_code = 1\<rparr>"
    using T[where n = None and f = "Dir []" and dirname = "[''pkg'']" and cwd = "[''app'']"
              and command = "Some ''add''" and name = "''Button''"] v(2) a(2)
    by simp
  have 7: "exit_code (main [''pkg''] [''app''] (Some ''add'') (Some ''all'') ?p) = 0"
    using T[where n = "Some ''all''" and f = ?p and dirname = "[''pkg'']" and cwd = "[''app'']"
              and command = "Some ''add''" and name = "''Button''"] a(1)
    by simp
  from 1 2 3 4 5 6 7 show ?thesis by (intro conjI)
qed

text \<open>
  Claim C3 as stated fails: a missing component name, an unknown command and a copy whose
  source cannot be read are failures too, each with an error line of its own, and without a
  working directory the tool exits with code 1.
\<close>

theorem cli_failure_modes_counterexample:
  "out (main [''pkg''] [''app''] (Some ''add'') None (Dir [(''app'', Dir [])]))
     = [Err PleaseSpecify, Log HelpText]
   \<and> out (main [''pkg''] [''app''] (Some ''remove'') None (Dir [(''app'', Dir [])]))
     = [Err (UnknownCommand (Some ''remove'')), Log HelpText]
   \<and> hd (out (main [''pkg''] [''app''] (Some ''add'') (Some ''Button'') (Dir [(''app'', Dir [])])))
     = Err (FailedToCopy [''pkg'', ''components'', ''ui'', ''Button.tsx''] ENOENT)
   \<and> main [''pkg''] [''app''] (Some ''add'') (Some ''Button'') (Dir []) =
       \<lparr>files = Dir [], out = [Err (AnErrorOccurred ENOENT)], written = [], exit_code = 1\<rparr>"
proof -
  let ?p = "Dir [(''app'', Dir [])]"
  have 1: "out (main [''pkg''] [''app''] (Some ''add'') None ?p)
     = [Err PleaseSpecify, Log HelpText]"
    by (simp add: main_missing)
  have 2: "out (main [''pkg''] [''app''] (Some ''remove'') None ?p)
     = [Err (UnknownCommand (Some ''remove'')), Log HelpText]"
    by (simp add: main_unknown_command)
  have c: "''Button'' \<in> set availableComponents" by (simp add: availableComponents_def)
  have a: "view ?p [''app''] = Some IsDir" by (simp add: view_def)
  have "snd (copyFile [''pkg'', ''components'', ''ui'', ''Button.tsx'']
               [''app'', ''components'', ''ui'', ''Button.tsx'']
               \<lparr>files = ?p, out = [], written = [], exit_code = 0\<rparr>)
        = \<lparr>files = Dir [(''app'', Dir [(''components'', Dir [(''ui'', Dir [])])])],
           out = [Err (FailedToCopy [''pkg'', ''components'', ''ui'', ''Button.tsx''] ENOENT)],
           written = [], exit_code = 0\<rparr>"
    by (simp add: copyFile_def say_def)
  then have 3: "hd (out (main [''pkg''] [''app''] (Some ''add'') (Some ''Button'') ?p))
     = Err (FailedToCopy [''pkg'', ''components'', ''ui'', ''Button.tsx''] ENOENT)"
    using c a
    by (simp add: main_add_alive addComponent_component_fresh pathExists_def reportAdded_def)
  have v: "isValidComponent ''Button''"
    by (simp add: isValidComponent_def availableComponents_def)
  have 4: "main [''pkg''] [''app''] (Some ''add'') (Some ''Button'') (Dir []) =
       \<lparr>files = Dir [], out = [Err (AnErrorOccurred ENOENT)], written = [], exit_code = 1\<rparr>"
    using v by (intro main_gone) (simp_all add: view_def)
  from 1 2 3 4 show ?thesis by (intro conjI)
qed

lemma addRelatedContext_reports:
  assumes "c \<in> set availableContexts" and "pathExists (files s) (targetOf cwd c)"
  shows "Log (AlreadyExists c) \<in> set (out (snd (addRelatedContext dirname cwd c s)))"
proof -
  from assms(2) have a: "view (files s) cwd = Some IsDir" by (rule target_alive)
  have "c \<notin> set availableComponents"
    using assms(1) by (auto simp: availableContexts_def availableComponents_def)
  with assms have "pathExists (files s) (cwd @ [''context'', c @ ''.tsx''])"
    by (simp add: targetOf_def)
  with assms(1) show ?thesis by (simp add: addRelatedContext_alive[OF a])
qed

lemma main_related_exists:
  assumes "(name, c) \<in> {(''Toast'', ''ToastContext''), (''Alert'', ''AlertContext''),
                         (''blueTheme'', ''ThemeContext'')}"
    and "\<not> pathExists f (targetOf cwd name)" and "pathExists f (targetOf cwd c)"
  shows "Log (AlreadyExists c) \<in> set (out (main dirname cwd (Some ''add'') (Some name) f))"
proof -
  let ?s = "\<lparr>files = f, out = [], written = [], exit_code = 0\<rparr>"
  from assms(3) have a: "view f cwd = Some IsDir" by (rule target_alive)
  then have a': "view (files ?s) cwd = Some IsDir" by simp
  from assms(1) have c: "c \<in> set availableContexts" by (auto simp: availableContexts_def)
  have r: "Log (AlreadyExists c)
             \<in> set (out (snd (addRelatedContext dirname cwd c (snd (copyFile src tgt ?s)))))"
    if "\<not> pathExists f tgt" for src tgt
  proof -
    from that have "view (files ?s) tgt = None" by (simp add: pathExists_view)
    with map_le_refl have "view (files ?s) \<subseteq>\<^sub>m view (files (snd (copyFile src tgt ?s)))"
      by (rule copyFile_le)
    then have "pathExists (files (snd (copyFile src tgt ?s))) (targetOf cwd c)"
      using assms(3) by (auto intro: pathExists_kept)
    with c show ?thesis by (rule addRelatedContext_reports)
  qed
  from assms(1) consider (toast) "name = ''Toast''" "c = ''ToastContext''"
    | (alert) "name = ''Alert''" "c = ''AlertContext''"
    | (theme) "name = ''blueTheme''" "c = ''ThemeContext''" by auto
  then have "Log (AlreadyExists c)
      \<in> set (out (snd (addComponent dirname cwd (Some name) ?s)))"
  proof cases
    case toast
    have m: "''Toast'' \<in> set availableComponents" by (simp add: availableComponents_def)
    from assms(2) have n: "\<not> pathExists (files ?s) (cwd @ [''components'', ''ui'', ''Toast'' @ ''.tsx''])"
      unfolding toast targetOf_cases(1)[OF m] by simp
    show ?thesis unfolding toast(1) addComponent_component_fresh[OF m a' n]
      using r[OF assms(2)[unfolded toast targetOf_cases(1)[OF m]]] toast(2)
      by (auto intro!: reportAdded_out[THEN subsetD])
  next
    case alert
    have m: "''Alert'' \<in> set availableComponents" by (simp add: availableComponents_def)
    from assms(2) have n: "\<not> pathExists (files ?s) (cwd @ [''components'', ''ui'', ''Alert'' @ ''.tsx''])"
      unfolding alert targetOf_cases(1)[OF m] by simp
    show ?thesis unfolding alert(1) addComponent_component_fresh[OF m a' n]
      using r[OF assms(2)[unfolded alert targetOf_cases(1)[OF m]]] alert(2)
      by (auto intro!: reportAdded_out[THEN subsetD])
  next
    case theme
    have m: "''blueTheme'' \<notin> set availableComponents" "''blueTheme'' \<notin> set availableContexts"
      "''blueTheme'' \<in> set availableThemes"
      by (simp_all add: availableComponents_def availableContexts_def availableThemes_def)
    from assms(2) have n: "\<not> pathExists (files ?s) (cwd @ [''themes'', ''blueTheme'' @ ''.ts''])"
      unfolding theme targetOf_cases(3)[OF m(1,2)] by simp
    show ?thesis unfolding theme(1) addComponent_theme_fresh[OF m a' n]
      using r[OF assms(2)[unfolded theme targetOf_cases(3)[OF m(1,2)]]] theme(2)
      by (auto intro!: reportAdded_out[THEN subsetD])
  qed
  then show ?thesis unfolding main_add_alive[OF a] .
qed

text \<open>
  Claim C8. An \<open>add\<close> of a valid name whose target exists prints the already-exists
  message and nothing else, and changes nothing. An \<open>add all\<close> prints the message for every
  item whose target exists. In every \<open>add\<close> run, every path that existed still holds what
  it held and no path that existed is written. An \<open>add\<close> of a component or theme that is
  copied, while the context added along with it exists, prints the already-exists message for
  that context.
\<close>

theorem add_existing_target_untouched:
  "(isValidComponent name \<and> pathExists f (targetOf cwd name) \<longrightarrow>
      main dirname cwd (Some ''add'') (Some name) f =
        \<lparr>files = f, out = [Log (AlreadyExists name)], written = [], exit_code = 0\<rparr>)
   \<and> (x \<in> set (availableComponents @ availableThemes) \<and> pathExists f (targetOf cwd x) \<longrightarrow>
        Log (AlreadyExists x) \<in> set (out (main dirname cwd (Some ''add'') (Some ''all'') f)))
   \<and> view f \<subseteq>\<^sub>m view (files (main dirname cwd (Some ''add'') n f))
   \<and> list_all (\<lambda>p. lookup f p = None) (written (main dirname cwd (Some ''add'') n f))
   \<and> ((item, c) \<in> {(''Toast'', ''ToastContext''), (''Alert'', ''AlertContext''),
                    (''blueTheme'', ''ThemeContext'')}
        \<and> \<not> pathExists f (targetOf cwd item) \<and> pathExists f (targetOf cwd c) \<longrightarrow>
        Log (AlreadyExists c) \<in> set (out (main dirname cwd (Some ''add'') (Some item) f)))"
proof -
  have "frame f (main dirname cwd (Some ''add'') n f)" by (rule main_frame(1))
  then have "view f \<subseteq>\<^sub>m view (files (main dirname cwd (Some ''add'') n f))"
    and "list_all (\<lambda>p. lookup f p = None) (written (main dirname cwd (Some ''add'') n f))"
    by (simp_all add: frame_def)
  then show ?thesis
    by (intro conjI impI main_exists main_all_reports main_related_exists) simp_all
qed

theorem add_existing_target_untouched_witness:
  "main [''pkg''] [''app''] (Some ''add'') (Some ''ThemeContext'')
        (Dir [(''app'', Dir [(''context'', Dir [(''ThemeContext.tsx'', File ''edited'')])])]) =
       \<lparr>files = Dir [(''app'', Dir [(''context'', Dir [(''ThemeContext.tsx'', File ''edited'')])])],
        out = [Log (AlreadyExists ''ThemeContext'')], written = [], exit_code = 0\<rparr>
   \<and> Log (AlreadyExists ''Switch'')
        \<in> set (out (main [''pkg''] [''app''] (Some ''add'') (Some ''all'')
                   (Dir [(''app'', Dir [(''components'', Dir [(''ui'',
                      Dir [(''Switch.tsx'', File ''mine'')])])])])))
   \<and> lookup (files (main [''pkg''] [''app''] (Some ''add'') (Some ''all'')
                      (Dir [(''app'', Dir [(''components'', Dir [(''ui'',
                         Dir [(''Switch.tsx'', File ''mine'')])])])])))
         [''app'', ''components'', ''ui'', ''Switch.tsx''] = Some (File ''mine'')
   \<and> Log (AlreadyExists ''ThemeContext'')
        \<in> set (out (main [''pkg''] [''app''] (Some ''add'') (Some ''blueTheme'')
           (Dir [(''app'', Dir [(''context'', Dir [(''ThemeContext.tsx'', File ''edited'')])])])))
   \<and> lookup (files (main [''pkg''] [''app''] (Some ''add'') (Some ''blueTheme'')
           (Dir [(''app'', Dir [(''context'', Dir [(''ThemeContext.tsx'', File ''edited'')])])])))
         [''app'', ''context'', ''ThemeContext.tsx''] = Some (File ''edited'')"
proof -
  let ?f = "Dir [(''app'', Dir [(''context'', Dir [(''ThemeContext.tsx'', File ''edited'')])])]"
  let ?g = "Dir [(''app'', Dir [(''components'', Dir [(''ui'',
               Dir [(''Switch.tsx'', File ''mine'')])])])]"
  have v: "isValidComponent ''ThemeContext''"
    by (simp add: isValidComponent_def availableContexts_def)
  have e: "pathExists ?f (targetOf [''app''] ''ThemeContext'')"
    by (simp add: pathExists_def targetOf_def availableComponents_def availableContexts_def)
  have m: "''Switch'' \<in> set (availableComponents @ availableThemes)"
    by (simp add: availableComponents_def)
  have e2: "pathExists ?g (targetOf [''app''] ''Switch'')"
    by (simp add: pathExists_def targetOf_def availableComponents_def)
  note T = add_existing_target_untouched
             [where name = "''ThemeContext''" and f = ?f and cwd = "[''app'']"
                and dirname = "[''pkg'']" and x = "''Switch''" and n = "Some ''blueTheme''"
                and item = "''blueTheme''" and c = "''ThemeContext''"]
  note U = add_existing_target_untouched
             [where name = "''ThemeContext''" and f = ?g and cwd = "[''app'']"
                and dirname = "[''pkg'']" and x = "''Switch''" and n = "Some ''all''"]
  have 1: "main [''pkg''] [''app''] (Some ''add'') (Some ''ThemeContext'') ?f =
       \<lparr>files = ?f, out = [Log (AlreadyExists ''ThemeContext'')], written = [], exit_code = 0\<rparr>"
    by (rule mp[OF T[THEN conjunct1] conjI[OF v e]])
  have 2: "Log (AlreadyExists ''Switch'')
        \<in> set (out (main [''pkg''] [''app''] (Some ''add'') (Some ''all'') ?g))"
    by (rule mp[OF U[THEN conjunct2, THEN conjunct1] conjI[OF m e2]])
  have "view ?g \<subseteq>\<^sub>m view (files (main [''pkg''] [''app''] (Some ''add'') (Some ''all'') ?g))"
    by (rule U[THEN conjunct2, THEN conjunct2, THEN conjunct1])
  then have "view (files (main [''pkg''] [''app''] (Some ''add'') (Some ''all'') ?g))
         [''app'', ''components'', ''ui'', ''Switch.tsx''] = Some (IsFile ''mine'')"
    by (rule map_le_kept) (simp add: view_def)
  then have 3: "lookup (files (main [''pkg''] [''app''] (Some ''add'') (Some ''all'') ?g))
         [''app'', ''components'', ''ui'', ''Switch.tsx''] = Some (File ''mine'')"
    by (simp add: view_File)
  have k: "(''blueTheme'', ''ThemeContext'')
             \<in> {(''Toast'', ''ToastContext''), (''Alert'', ''AlertContext''),
                (''blueTheme'', ''ThemeContext'')}" by simp
  have nb: "\<not> pathExists ?f (targetOf [''app''] ''blueTheme'')"
    by (simp add: pathExists_def targetOf_def availableComponents_def availableContexts_def)
  have 4: "Log (AlreadyExists ''ThemeContext'')
        \<in> set (out (main [''pkg''] [''app''] (Some ''add'') (Some ''blueTheme'') ?f))"
    by (rule mp[OF T[THEN conjunct2, THEN conjunct2, THEN conjunct2, THEN conjunct2]])
       (intro conjI k nb e)
  have "view ?f \<subseteq>\<^sub>m view (files (main [''pkg''] [''app''] (Some ''add'') (Some ''blueTheme'') ?f))"
    by (rule T[THEN conjunct2, THEN conjunct2, THEN conjunct1])
  then have "view (files (main [''pkg''] [''app''] (Some ''add'') (Some ''blueTheme'') ?f))
         [''app'', ''context'', ''ThemeContext.tsx''] = Some (IsFile ''edited'')"
    by (rule map_le_kept) (simp add: view_def)
  then have 5: "lookup (files (main [''pkg''] [''app''] (Some ''add'') (Some ''blueTheme'') ?f))
         [''app'', ''context'', ''ThemeContext.tsx''] = Some (File ''edited'')"
    by (simp add: view_File)
  from 1 2 3 4 5 show ?thesis by (intro conjI)
qed



end
